theory Spec2Isabelle
  imports Main "HOL-Library.Multiset" "HOL-Library.Char_ord" "HOL-Library.List_Lexorder"
begin

section \<open>Values of the tournament tracker\<close>

text \<open>
  The engine lives in \<^verbatim>\<open>src/App.jsx\<close>. Its JavaScript values are modelled as follows.

  \<^item> A player reference held in a match slot or on the podium is a string, \<^verbatim>\<open>undefined\<close>
    (a destructured or indexed array position that does not exist) or \<^verbatim>\<open>null\<close> (the
    initial champion and the initial podium places): the datatype \<open>ref\<close>.
  \<^item> A score is a number or absent: \<open>int option\<close>, \<open>None\<close> for \<^verbatim>\<open>undefined\<close>. The score
    inputs produce numbers only, and the data model has integer scores.
  \<^item> \<^verbatim>\<open>completed\<close> is only ever tested for truthiness, so the absent field of a fresh match
    is \<open>False\<close>.
  \<^item> \<^verbatim>\<open>uid()\<close> draws a random string. A function that calls it takes the results of its
    calls as a parameter \<open>u\<close>: the \<open>k\<close>-th call (from 0) of one invocation returns \<open>u k\<close>.
\<close>

datatype ref = Undefined | Null | Str string

record player =
  p_id :: string
  p_name :: string
  seed :: int

record match =
  m_id :: string
  m_a :: ref
  m_b :: ref
  scoreA :: "int option"
  scoreB :: "int option"
  completed :: bool

record group =
  g_name :: string
  g_players :: "string list"
  g_matches :: "match list"

text \<open>An object literal \<^verbatim>\<open>{ id: uid(), a: x, b: y }\<close>: no scores, no \<^verbatim>\<open>completed\<close> field.\<close>

definition newMatch :: "string \<Rightarrow> ref \<Rightarrow> ref \<Rightarrow> match" where
  "newMatch i x y =
     \<lparr>m_id = i, m_a = x, m_b = y, scoreA = None, scoreB = None, completed = False\<rparr>"

text \<open>Reading an array at an index: \<^verbatim>\<open>undefined\<close> beyond its length.\<close>

definition at :: "string list \<Rightarrow> nat \<Rightarrow> ref" where
  "at xs i = (if i < length xs then Str (xs ! i) else Undefined)"

definition atRef :: "ref list \<Rightarrow> nat \<Rightarrow> ref" where
  "atRef xs i = (if i < length xs then xs ! i else Undefined)"

text \<open>
  \<^verbatim>\<open>x > y\<close> on two scores: an absent score converts to NaN, and every comparison with NaN
  is false.
\<close>

fun gt :: "int option \<Rightarrow> int option \<Rightarrow> bool" where
  "gt (Some x) (Some y) = (y < x)"
| "gt _ _ = False"

section \<open>Decimal rendering of numbers in template strings\<close>

definition digit :: "nat \<Rightarrow> char" where
  "digit d = char_of (48 + d)"

function showNat :: "nat \<Rightarrow> string" where
  "showNat n = (if n < 10 then [digit n] else showNat (n div 10) @ [digit (n mod 10)])"
  by pat_completeness auto
termination
  by (relation "measure id") auto

definition showInt :: "int \<Rightarrow> string" where
  "showInt i = (if i < 0 then CHR ''-'' # showNat (nat (- i)) else showNat (nat i))"

section \<open>Scoring validation\<close>

text \<open>
  \<^verbatim>\<open>validateCornholeScore(sa, sb, target = 21)\<close>: \<open>None\<close> is the \<^verbatim>\<open>null\<close> of a legal result,
  \<open>Some msg\<close> the error message. The caller's target is passed explicitly; the default of
  the source is \<open>validateCornholeScore21\<close>.
\<close>

definition validateCornholeScore :: "int option \<Rightarrow> int option \<Rightarrow> int \<Rightarrow> string option" where
  "validateCornholeScore sa sb target =
     (case (sa, sb) of
        (Some x, Some y) \<Rightarrow>
          if x = y then Some ''No draws in cornhole''
          else if max x y \<noteq> target then Some (''Winner must have exactly '' @ showInt target)
          else if min x y \<ge> target then Some (''Loser must be below '' @ showInt target)
          else None
      | _ \<Rightarrow> Some ''Enter both scores'')"

definition validateCornholeScore21 :: "int option \<Rightarrow> int option \<Rightarrow> string option" where
  "validateCornholeScore21 sa sb = validateCornholeScore sa sb 21"

section \<open>Round-robin schedule of a group\<close>

text \<open>
  \<^verbatim>\<open>scheduleRoundRobin4(ids)\<close> destructures the first four positions of \<open>ids\<close> and returns six
  fresh matches.
\<close>

definition scheduleRoundRobin4 :: "(nat \<Rightarrow> string) \<Rightarrow> string list \<Rightarrow> match list" where
  "scheduleRoundRobin4 u ids =
     (let A = at ids 0; B = at ids 1; C = at ids 2; D = at ids 3 in
      [newMatch (u 0) A B, newMatch (u 1) A C, newMatch (u 2) A D,
       newMatch (u 3) B C, newMatch (u 4) B D, newMatch (u 5) C D])"

text \<open>The unordered pair of participants of a match.\<close>

definition pairOf :: "match \<Rightarrow> ref set" where
  "pairOf m = {m_a m, m_b m}"

section \<open>Podium\<close>

record podium =
  gold :: ref
  silver :: ref
  bronze :: ref

text \<open>\<^verbatim>\<open>x ?? -1\<close> on a score and \<^verbatim>\<open>x ?? null\<close> on a player reference.\<close>

definition orMinus1 :: "int option \<Rightarrow> int" where
  "orMinus1 x = (case x of None \<Rightarrow> - 1 | Some v \<Rightarrow> v)"

definition orNull :: "ref \<Rightarrow> ref" where
  "orNull x = (case x of Str s \<Rightarrow> Str s | _ \<Rightarrow> Null)"

text \<open>
  \<^verbatim>\<open>getPodium(rounds, championId)\<close>. The state always holds an array of rounds, so
  \<^verbatim>\<open>!rounds?.length\<close> is the test for the empty list. A round is an array, which is truthy,
  so \<^verbatim>\<open>rounds[k] || []\<close> is \<^verbatim>\<open>rounds[k]\<close>; a match is an object, so \<^verbatim>\<open>if (final)\<close> tests that
  the last round has a first match.
\<close>

definition getPodium :: "match list list \<Rightarrow> ref \<Rightarrow> podium" where
  "getPodium rounds championId =
     (let res = \<lparr>gold = championId, silver = Null, bronze = Null\<rparr> in
      if rounds = [] then res
      else
        let finalRound = rounds ! (length rounds - 1);
            res1 = (case finalRound of
                      [] \<Rightarrow> res
                    | final # _ \<Rightarrow>
                        res\<lparr>silver :=
                          if m_a final = championId then m_b final
                          else if m_b final = championId then m_a final
                          else if gt (scoreA final) (scoreB final) then m_b final
                          else m_a final\<rparr>)
        in
          if length rounds \<ge> 2 then
            let semis = rounds ! (length rounds - 2) in
            if length semis \<ge> 2 then
              let losers = map (\<lambda>m. if gt (scoreA m) (scoreB m) then m_b m else m_a m) semis;
                  losingScores =
                    map (\<lambda>m. if gt (scoreA m) (scoreB m) then scoreB m else scoreA m) semis;
                  idx = (if orMinus1 (losingScores ! 1) > orMinus1 (losingScores ! 0)
                         then 1 else 0 :: nat)
              in res1\<lparr>bronze := orNull (atRef losers idx)\<rparr>
            else res1
          else res1)"

text \<open>
  The vocabulary of the podium specification: a match is decided when it is completed with two
  different scores, as every result that the validator accepts has; its loser is then the
  lower scorer and its losing score the lower score.
\<close>

definition decided :: "match \<Rightarrow> bool" where
  "decided m =
     (completed m \<and> (case (scoreA m, scoreB m) of (Some x, Some y) \<Rightarrow> x \<noteq> y | _ \<Rightarrow> False))"

definition lowerScorer :: "match \<Rightarrow> ref" where
  "lowerScorer m = (if gt (scoreB m) (scoreA m) then m_a m else m_b m)"


definition lowerScore :: "match \<Rightarrow> int option" where
  "lowerScore m = (if gt (scoreB m) (scoreA m) then scoreA m else scoreB m)"

section \<open>Errors\<close>

text \<open>A read or write of a property of \<^verbatim>\<open>undefined\<close> throws a \<^verbatim>\<open>TypeError\<close>.\<close>

datatype error = TypeError

section \<open>Standings\<close>

text \<open>
  Arithmetic on scores: \<^verbatim>\<open>x += m.scoreA\<close> with an absent score gives NaN, which then stays.
  \<open>jsnum\<close> is an integer or NaN; a NaN and a zero are falsy, and no comparison with NaN
  holds.
\<close>

datatype jsnum = NaN | Num int

fun toNum :: "int option \<Rightarrow> jsnum" where
  "toNum None = NaN"
| "toNum (Some v) = Num v"

fun add :: "jsnum \<Rightarrow> jsnum \<Rightarrow> jsnum" where
  "add (Num x) (Num y) = Num (x + y)"
| "add _ _ = NaN"

fun sub :: "jsnum \<Rightarrow> jsnum \<Rightarrow> jsnum" where
  "sub (Num x) (Num y) = Num (x - y)"
| "sub _ _ = NaN"

fun truthyNum :: "jsnum \<Rightarrow> bool" where
  "truthyNum (Num v) = (v \<noteq> 0)"
| "truthyNum NaN = False"

fun negative :: "jsnum \<Rightarrow> bool" where
  "negative (Num v) = (v < 0)"
| "negative NaN = False"

record row =
  r_id :: string
  r_name :: string
  r_P :: int
  r_W :: int
  r_L :: int
  r_PF :: jsnum
  r_PA :: jsnum
  r_PD :: jsnum
  r_Pts :: int

text \<open>
  \<^verbatim>\<open>Object.fromEntries\<close>: a later entry with the same key replaces an earlier one. The
  players index is built this way from the players, and so is \<^verbatim>\<open>row\<close> from the table.
  (Properties that every object inherits, such as \<^verbatim>\<open>constructor\<close>, are not modelled: no
  id is such a name.)
\<close>

definition fromEntries :: "(string \<times> 'v) list \<Rightarrow> (string \<rightharpoonup> 'v)" where
  "fromEntries kvs = map_of (rev kvs)"

text \<open>A property key: \<^verbatim>\<open>row[m.a]\<close> converts the reference to a string.\<close>

fun keyOf :: "ref \<Rightarrow> string" where
  "keyOf (Str s) = s"
| "keyOf Undefined = ''undefined''"
| "keyOf Null = ''null''"

text \<open>\<^verbatim>\<open>playersIndex[pid]?.name || "?"\<close>: an empty name is falsy.\<close>

definition nameOf :: "(string \<rightharpoonup> player) \<Rightarrow> string \<Rightarrow> string" where
  "nameOf playersIndex pid =
     (case playersIndex pid of
        None \<Rightarrow> ''?''
      | Some p \<Rightarrow> if p_name p = [] then ''?'' else p_name p)"

text \<open>
  The rows are objects shared between \<^verbatim>\<open>table\<close> and \<^verbatim>\<open>row\<close>. The table is the list of
  rows, and \<^verbatim>\<open>row\<close> maps an id to the position of its row in the table; a statement
  that mutates a row is an update of the table at that position.
\<close>

definition upd :: "nat \<Rightarrow> (row \<Rightarrow> row) \<Rightarrow> row list \<Rightarrow> row list" where
  "upd i f t = t[i := f (t ! i)]"

text \<open>
  The body of the loop over the matches, statement by statement. \<^verbatim>\<open>a.P++\<close> on a missing
  row throws.
\<close>

definition matchStep :: "(string \<rightharpoonup> nat) \<Rightarrow> row list \<Rightarrow> match \<Rightarrow> error + row list" where
  "matchStep row t m =
     (if \<not> completed m then Inr t
      else case (row (keyOf (m_a m)), row (keyOf (m_b m))) of
        (Some a, Some b) \<Rightarrow>
          let t = upd a (\<lambda>r. r\<lparr>r_P := r_P r + 1\<rparr>) t;
              t = upd b (\<lambda>r. r\<lparr>r_P := r_P r + 1\<rparr>) t;
              t = upd a (\<lambda>r. r\<lparr>r_PF := add (r_PF r) (toNum (scoreA m))\<rparr>) t;
              t = upd a (\<lambda>r. r\<lparr>r_PA := add (r_PA r) (toNum (scoreB m))\<rparr>) t;
              t = upd a (\<lambda>r. r\<lparr>r_PD := sub (r_PF r) (r_PA r)\<rparr>) t;
              t = upd b (\<lambda>r. r\<lparr>r_PF := add (r_PF r) (toNum (scoreB m))\<rparr>) t;
              t = upd b (\<lambda>r. r\<lparr>r_PA := add (r_PA r) (toNum (scoreA m))\<rparr>) t;
              t = upd b (\<lambda>r. r\<lparr>r_PD := sub (r_PF r) (r_PA r)\<rparr>) t
          in if gt (scoreA m) (scoreB m)
             then Inr (upd a (\<lambda>r. r\<lparr>r_Pts := r_Pts r + 3\<rparr>)
                        (upd b (\<lambda>r. r\<lparr>r_L := r_L r + 1\<rparr>)
                          (upd a (\<lambda>r. r\<lparr>r_W := r_W r + 1\<rparr>) t)))
             else Inr (upd b (\<lambda>r. r\<lparr>r_Pts := r_Pts r + 3\<rparr>)
                        (upd a (\<lambda>r. r\<lparr>r_L := r_L r + 1\<rparr>)
                          (upd b (\<lambda>r. r\<lparr>r_W := r_W r + 1\<rparr>) t)))
      | _ \<Rightarrow> Inl TypeError)"

fun standingsLoop :: "(string \<rightharpoonup> nat) \<Rightarrow> row list \<Rightarrow> match list \<Rightarrow> error + row list" where
  "standingsLoop row t [] = Inr t"
| "standingsLoop row t (m # ms) =
     (case matchStep row t m of
        Inl e \<Rightarrow> Inl e
      | Inr t' \<Rightarrow> standingsLoop row t' ms)"

text \<open>
  The comparator of the sort,
  \<^verbatim>\<open>y.Pts - x.Pts || y.PD - x.PD || y.PF - x.PF || x.name.localeCompare(y.name)\<close>.
  \<^verbatim>\<open>localeCompare\<close> is the collation of the JavaScript engine; it is the parameter
  \<open>localeCompare\<close>, a function to a negative number, zero or a positive number.
\<close>

definition cmpRows :: "(string \<Rightarrow> string \<Rightarrow> int) \<Rightarrow> row \<Rightarrow> row \<Rightarrow> jsnum" where
  "cmpRows localeCompare x y =
     (if truthyNum (Num (r_Pts y - r_Pts x)) then Num (r_Pts y - r_Pts x)
      else if truthyNum (sub (r_PD y) (r_PD x)) then sub (r_PD y) (r_PD x)
      else if truthyNum (sub (r_PF y) (r_PF x)) then sub (r_PF y) (r_PF x)
      else Num (localeCompare (r_name x) (r_name y)))"

text \<open>
  \<^verbatim>\<open>Array.prototype.sort\<close> with a comparator is a stable sort: \<open>y\<close> moves before an earlier
  \<open>x\<close> only when the comparator puts it strictly first. It is modelled as a stable
  insertion sort. (For a comparator that is not consistent the language leaves the order
  to the engine; the properties below are about consistent comparators.)
\<close>

fun insertRow :: "('a \<Rightarrow> 'a \<Rightarrow> jsnum) \<Rightarrow> 'a \<Rightarrow> 'a list \<Rightarrow> 'a list" where
  "insertRow cmp x [] = [x]"
| "insertRow cmp x (y # ys) =
     (if negative (cmp y x) then y # insertRow cmp x ys else x # y # ys)"

definition sortBy :: "('a \<Rightarrow> 'a \<Rightarrow> jsnum) \<Rightarrow> 'a list \<Rightarrow> 'a list" where
  "sortBy cmp xs = foldr (insertRow cmp) xs []"

definition computeStandings ::
  "(string \<Rightarrow> string \<Rightarrow> int) \<Rightarrow> group \<Rightarrow> (string \<rightharpoonup> player) \<Rightarrow> error + row list" where
  "computeStandings localeCompare grp playersIndex =
     (let table = map (\<lambda>pid. \<lparr>r_id = pid, r_name = nameOf playersIndex pid,
                               r_P = 0, r_W = 0, r_L = 0, r_PF = Num 0, r_PA = Num 0,
                               r_PD = Num 0, r_Pts = 0\<rparr>) (g_players grp);
          row = fromEntries (map (\<lambda>(i, r). (r_id r, i)) (enumerate 0 table))
      in case standingsLoop row table (g_matches grp) of
           Inl e \<Rightarrow> Inl e
         | Inr t \<Rightarrow> Inr (sortBy (cmpRows localeCompare) t))"

text \<open>
  The words of the standings specification. For a player, each completed match
  contributes one result per side the player occupies: the own score and the opponent's
  score. The expected row of a player is made of these results and of the player's name,
  which \<open>nameFor\<close> gives.
\<close>

definition resultsOf :: "string \<Rightarrow> match list \<Rightarrow> (int \<times> int) list" where
  "resultsOf p ms =
     concat (map (\<lambda>m.
       case (scoreA m, scoreB m) of
         (Some x, Some y) \<Rightarrow>
           (if completed m \<and> m_a m = Str p then [(x, y)] else []) @
           (if completed m \<and> m_b m = Str p then [(y, x)] else [])
       | _ \<Rightarrow> []) ms)"

definition expectedRow :: "(string \<Rightarrow> string) \<Rightarrow> match list \<Rightarrow> string \<Rightarrow> row" where
  "expectedRow nameFor ms p =
     (let rs = resultsOf p ms;
          pf = sum_list (map fst rs);
          pa = sum_list (map snd rs);
          w = int (length (filter (\<lambda>(own, opp). opp < own) rs));
          l = int (length (filter (\<lambda>(own, opp). own < opp) rs))
      in \<lparr>r_id = p, r_name = nameFor p,
          r_P = int (length rs), r_W = w, r_L = l,
          r_PF = Num pf, r_PA = Num pa, r_PD = Num (pf - pa), r_Pts = 3 * w\<rparr>)"

text \<open>
  The name of a player in the table, read from the players index: the name of the player
  that the index holds under the id, with \<^verbatim>\<open>?\<close> in place of an empty name. A group is
  indexed when the index holds a player under the id of each of its players.
\<close>

definition indexName :: "(string \<rightharpoonup> player) \<Rightarrow> string \<Rightarrow> string" where
  "indexName playersIndex p =
     (case playersIndex p of
        Some pl \<Rightarrow> if p_name pl = [] then ''?'' else p_name pl
      | None \<Rightarrow> [])"

definition indexed :: "(string \<rightharpoonup> player) \<Rightarrow> group \<Rightarrow> bool" where
  "indexed playersIndex g = (\<forall>p \<in> set (g_players g). playersIndex p \<noteq> None)"

text \<open>
  The ranking: more points first, then the larger point difference, then more points for,
  then the name that the collation puts first. Two rows tie when none of the four
  separates them.
\<close>

fun numLess :: "jsnum \<Rightarrow> jsnum \<Rightarrow> bool" where
  "numLess (Num x) (Num y) = (x < y)"
| "numLess _ _ = False"

definition rankedBefore :: "(string \<Rightarrow> string \<Rightarrow> int) \<Rightarrow> row \<Rightarrow> row \<Rightarrow> bool" where
  "rankedBefore localeCompare x y =
     (r_Pts y < r_Pts x \<or>
      (r_Pts x = r_Pts y \<and>
        (numLess (r_PD y) (r_PD x) \<or>
         (r_PD x = r_PD y \<and>
           (numLess (r_PF y) (r_PF x) \<or>
            (r_PF x = r_PF y \<and> localeCompare (r_name x) (r_name y) < 0))))))"

definition tied :: "(string \<Rightarrow> string \<Rightarrow> int) \<Rightarrow> row \<Rightarrow> row \<Rightarrow> bool" where
  "tied localeCompare x y =
     (r_Pts x = r_Pts y \<and> r_PD x = r_PD y \<and> r_PF x = r_PF y \<and>
      localeCompare (r_name x) (r_name y) = 0)"

text \<open>
  What is assumed of the collation: it is a consistent comparator, that is, swapping the
  arguments swaps the sign, and "not after" is transitive.
\<close>

definition consistent :: "('a \<Rightarrow> 'a \<Rightarrow> int) \<Rightarrow> bool" where
  "consistent c =
     ((\<forall>x y. (c x y < 0) = (0 < c y x)) \<and>
      (\<forall>x y z. c x y \<le> 0 \<and> c y z \<le> 0 \<longrightarrow> c x z \<le> 0))"

text \<open>
  The groups the data model describes: the players of a group are different, both slots of
  every match hold players of the group, and a completed match has two different scores.
\<close>

definition wellFormed :: "group \<Rightarrow> bool" where
  "wellFormed g =
     (distinct (g_players g) \<and>
      (\<forall>m \<in> set (g_matches g).
         (\<exists>p \<in> set (g_players g). m_a m = Str p) \<and>
         (\<exists>p \<in> set (g_players g). m_b m = Str p) \<and>
         (completed m \<longrightarrow> decided m)))"

text \<open>An example collation: comparison by character codes, position by position.\<close>

fun codeCompare :: "string \<Rightarrow> string \<Rightarrow> int" where
  "codeCompare [] [] = 0"
| "codeCompare [] (y # ys) = - 1"
| "codeCompare (x # xs) [] = 1"
| "codeCompare (x # xs) (y # ys) =
     (if (of_char x :: nat) < of_char y then - 1
      else if (of_char y :: nat) < of_char x then 1
      else codeCompare xs ys)"

section \<open>First knockout round from the groups\<close>

text \<open>A player id or group name in a condition: \<^verbatim>\<open>undefined\<close> and the empty string are falsy.\<close>

fun truthy :: "ref \<Rightarrow> bool" where
  "truthy (Str s) = (s \<noteq> [])"
| "truthy _ = False"

text \<open>\<^verbatim>\<open>table[k]?.id\<close>.\<close>

definition idAt :: "row list \<Rightarrow> nat \<Rightarrow> ref" where
  "idAt table k = (if k < length table then Str (r_id (table ! k)) else Undefined)"

text \<open>
  The first loop of \<^verbatim>\<open>buildKnockout\<close> fills \<^verbatim>\<open>advancers\<close>, an object from group names to
  the pair of the first two ids of the group's standings. An exception of
  \<^verbatim>\<open>computeStandings\<close> ends the function.
\<close>

fun advancersLoop ::
  "(string \<Rightarrow> string \<Rightarrow> int) \<Rightarrow> (string \<rightharpoonup> player) \<Rightarrow> (string \<rightharpoonup> ref \<times> ref) \<Rightarrow> group list
     \<Rightarrow> error + (string \<rightharpoonup> ref \<times> ref)" where
  "advancersLoop localeCompare playersIndex advancers [] = Inr advancers"
| "advancersLoop localeCompare playersIndex advancers (g # gs) =
     (case computeStandings localeCompare g playersIndex of
        Inl e \<Rightarrow> Inl e
      | Inr table \<Rightarrow>
          advancersLoop localeCompare playersIndex
            (advancers(g_name g \<mapsto> (idAt table 0, idAt table 1))) gs)"

text \<open>
  The second loop, over the sorted names two at a time. \<^verbatim>\<open>if (!g2) break\<close> leaves the loop
  when the second name is missing or empty. Destructuring \<^verbatim>\<open>advancers[g]\<close> for a name
  without an entry would throw.
\<close>

function pairingLoop ::
  "(nat \<Rightarrow> string) \<Rightarrow> string list \<Rightarrow> (string \<rightharpoonup> ref \<times> ref) \<Rightarrow> nat \<Rightarrow> match list
     \<Rightarrow> error + match list" where
  "pairingLoop u order advancers i pairings =
     (if i < length order then
        let g1 = order ! i;
            g2 = at order (i + 1)
        in if \<not> truthy g2 then Inr pairings
           else
             case (advancers g1, advancers (keyOf g2)) of
               (Some (g1w, g1r), Some (g2w, g2r)) \<Rightarrow>
                 let pairings1 =
                       (if truthy g1w \<and> truthy g2r
                        then pairings @ [newMatch (u (length pairings)) g1w g2r]
                        else pairings);
                     pairings2 =
                       (if truthy g2w \<and> truthy g1r
                        then pairings1 @ [newMatch (u (length pairings1)) g2w g1r]
                        else pairings1)
                 in pairingLoop u order advancers (i + 2) pairings2
             | _ \<Rightarrow> Inl TypeError
      else Inr pairings)"
  by pat_completeness auto
termination
  by (relation "measure (\<lambda>(u, order, advancers, i, pairings). length order - i)") auto

declare pairingLoop.simps [simp del]

text \<open>
  \<^verbatim>\<open>buildKnockout(groups, playersIndex)\<close>. \<^verbatim>\<open>.sort()\<close> without a comparator orders strings by
  their code units, position by position: the order of \<open>string\<close> with the character and
  list order of the imported library theories.
\<close>

definition buildKnockout ::
  "(nat \<Rightarrow> string) \<Rightarrow> (string \<Rightarrow> string \<Rightarrow> int) \<Rightarrow> group list \<Rightarrow> (string \<rightharpoonup> player)
     \<Rightarrow> error + match list" where
  "buildKnockout u localeCompare groups playersIndex =
     (let order = sort (map g_name groups) in
      case advancersLoop localeCompare playersIndex Map.empty groups of
        Inl e \<Rightarrow> Inl e
      | Inr advancers \<Rightarrow> pairingLoop u order advancers 0 [])"

text \<open>
  The words of the pairing specification. The standings winner and runner-up of a group are the
  ids of the first and second row of its standings, undefined when there is no such row.
  The groups, in name order, are taken two at a time; a pair \<open>(G1, G2)\<close> gives \<open>G1\<close>'s
  winner against \<open>G2\<close>'s runner-up and then \<open>G2\<close>'s winner against \<open>G1\<close>'s runner-up, a match
  being left out when one of its two players is undefined; a last group without a partner
  gives nothing.
\<close>

definition standingsWinner :: "(string \<Rightarrow> string \<Rightarrow> int) \<Rightarrow> (string \<rightharpoonup> player) \<Rightarrow> group \<Rightarrow> ref" where
  "standingsWinner localeCompare playersIndex g =
     (case computeStandings localeCompare g playersIndex of
        Inr table \<Rightarrow> idAt table 0 | Inl e \<Rightarrow> Undefined)"

definition runnerUp :: "(string \<Rightarrow> string \<Rightarrow> int) \<Rightarrow> (string \<rightharpoonup> player) \<Rightarrow> group \<Rightarrow> ref" where
  "runnerUp localeCompare playersIndex g =
     (case computeStandings localeCompare g playersIndex of
        Inr table \<Rightarrow> idAt table 1 | Inl e \<Rightarrow> Undefined)"

fun crossPairs ::
  "(string \<Rightarrow> string \<Rightarrow> int) \<Rightarrow> (string \<rightharpoonup> player) \<Rightarrow> group list \<Rightarrow> (ref \<times> ref) list" where
  "crossPairs lc idx (g1 # g2 # rest) =
     (if standingsWinner lc idx g1 \<noteq> Undefined \<and> runnerUp lc idx g2 \<noteq> Undefined
      then [(standingsWinner lc idx g1, runnerUp lc idx g2)] else []) @
     (if standingsWinner lc idx g2 \<noteq> Undefined \<and> runnerUp lc idx g1 \<noteq> Undefined
      then [(standingsWinner lc idx g2, runnerUp lc idx g1)] else []) @
     crossPairs lc idx rest"
| "crossPairs lc idx _ = []"

text \<open>Two notions for the proofs: the effect of an update on the row at position \<open>k\<close>, and
  a row whose point difference and points for are numbers.\<close>

definition applyAt :: "nat \<Rightarrow> nat \<Rightarrow> (row \<Rightarrow> row) \<Rightarrow> row \<Rightarrow> row" where
  "applyAt k i f r = (if i = k then f r else r)"

definition numeric :: "row \<Rightarrow> bool" where
  "numeric r = (r_PD r \<noteq> NaN \<and> r_PF r \<noteq> NaN)"

section \<open>Tournament state and knockout score submission\<close>

datatype stage = Setup | Groups | Knockout | Champion

datatype mode = GroupsMode | SingleMode

text \<open>
  The React state of the application component. \<^verbatim>\<open>champion\<close> starts as \<^verbatim>\<open>null\<close>.
\<close>

record app =
  players :: "player list"
  groups :: "group list"
  mode :: mode
  stage :: stage
  rounds :: "match list list"
  champion :: ref
  target :: int

text \<open>
  The pairing loop of \<^verbatim>\<open>submitKnockoutScore\<close>:
  \<^verbatim>\<open>for (let i = 0; i < winners.length; i += 2) nextRound.push({ id: uid(), a: winners[i], b: winners[i+1] })\<close>.
  Each pass calls \<^verbatim>\<open>uid()\<close> once, so the call number is the length of \<open>nextRound\<close>.
\<close>

function nextRoundLoop :: "(nat \<Rightarrow> string) \<Rightarrow> ref list \<Rightarrow> nat \<Rightarrow> match list \<Rightarrow> match list" where
  "nextRoundLoop u winners i nextRound =
     (if i < length winners
      then nextRoundLoop u winners (i + 2)
             (nextRound @ [newMatch (u (length nextRound)) (atRef winners i) (atRef winners (i + 1))])
      else nextRound)"
  by pat_completeness auto
termination
  by (relation "measure (\<lambda>(u, winners, i, nextRound). length winners - i)") auto

declare nextRoundLoop.simps [simp del]

text \<open>
  The first statement of the updater: the submitted match, marked completed, replaces
  every match of round \<open>roundIndex\<close> that has its id.
\<close>

definition withScore :: "nat \<Rightarrow> match \<Rightarrow> match list list \<Rightarrow> match list list" where
  "withScore roundIndex matchWithScores prev =
     map (\<lambda>(i, r).
            if i = roundIndex
            then map (\<lambda>m. if m_id m = m_id matchWithScores
                            then matchWithScores\<lparr>completed := True\<rparr> else m) r
            else r)
         (enumerate 0 prev)"

text \<open>
  \<^verbatim>\<open>submitKnockoutScore(roundIndex, matchWithScores)\<close>: the updater passed to \<^verbatim>\<open>setRounds\<close>
  together with the \<^verbatim>\<open>setChampion\<close> and \<^verbatim>\<open>setStage\<close> calls it makes. \<^verbatim>\<open>next[roundIndex]\<close>
  beyond the rounds is \<^verbatim>\<open>undefined\<close>, and \<^verbatim>\<open>.every\<close> on it throws.
\<close>

definition submitKnockoutScore :: "(nat \<Rightarrow> string) \<Rightarrow> nat \<Rightarrow> match \<Rightarrow> app \<Rightarrow> error + app" where
  "submitKnockoutScore u roundIndex matchWithScores s =
     (let next = withScore roundIndex matchWithScores (rounds s) in
      if roundIndex \<ge> length next then Inl TypeError
      else if list_all completed (next ! roundIndex) then
        let winners = map (\<lambda>m. if gt (scoreA m) (scoreB m) then m_a m else m_b m)
                          (next ! roundIndex)
        in if length winners = 1
           then Inr (s\<lparr>rounds := next, champion := winners ! 0, stage := Champion\<rparr>)
           else Inr (s\<lparr>rounds := next @ [nextRoundLoop u winners 0 []]\<rparr>)
      else Inr (s\<lparr>rounds := next\<rparr>))"



section \<open>Setup, group scores and the move to the knockout stage\<close>

text \<open>
  \<^verbatim>\<open>shuffle\<close>: the loop runs \<open>i\<close> from the last index down to 1 and swaps positions \<open>i\<close> and
  \<open>j = Math.floor(Math.random() * (i + 1))\<close>, a number from 0 to \<open>i\<close>. The draws are the
  parameter \<open>rnd\<close>: the \<open>k\<close>-th draw (from 0) is \<open>rnd k\<close> reduced modulo \<open>i + 1\<close>.
\<close>

function shuffleLoop :: "(nat \<Rightarrow> nat) \<Rightarrow> 'a list \<Rightarrow> nat \<Rightarrow> nat \<Rightarrow> 'a list" where
  "shuffleLoop rnd a i k =
     (if i > 0
      then shuffleLoop rnd (a[i := a ! (rnd k mod (i + 1)), rnd k mod (i + 1) := a ! i])
             (i - 1) (k + 1)
      else a)"
  by pat_completeness auto
termination
  by (relation "measure (\<lambda>(rnd, a, i, k). i)") auto

declare shuffleLoop.simps [simp del]

definition shuffle :: "(nat \<Rightarrow> nat) \<Rightarrow> 'a list \<Rightarrow> 'a list" where
  "shuffle rnd arr = shuffleLoop rnd arr (length arr - 1) 0"

text \<open>
  \<^verbatim>\<open>chunk(arr, size)\<close>: the reduce appends \<^verbatim>\<open>arr.slice(i, i + size)\<close> at every index \<open>i\<close> with
  \<^verbatim>\<open>i % size\<close> falsy (zero, or NaN when the size is 0).
\<close>

definition chunk :: "'a list \<Rightarrow> nat \<Rightarrow> 'a list list" where
  "chunk arr sz =
     foldl (\<lambda>acc i. if sz \<noteq> 0 \<and> i mod sz \<noteq> 0 then acc
                     else acc @ [take sz (drop i arr)])
           [] [0 ..< length arr]"

text \<open>
  \<^verbatim>\<open>isPowerOfTwo\<close>, \<^verbatim>\<open>(n & (n - 1)) === 0\<close>, on a count of names (the 32-bit conversion of
  \<^verbatim>\<open>&\<close> does not change a list length).
\<close>

definition isPowerOfTwo :: "nat \<Rightarrow> bool" where
  "isPowerOfTwo n = (and (int n) (int n - 1) = 0)"

text \<open>The pairing loop of \<^verbatim>\<open>buildSingleElimFirstRound\<close>, over the shuffled ids.\<close>

function firstRoundLoop :: "(nat \<Rightarrow> string) \<Rightarrow> string list \<Rightarrow> nat \<Rightarrow> match list \<Rightarrow> match list" where
  "firstRoundLoop u seeded i round =
     (if i < length seeded
      then firstRoundLoop u seeded (i + 2)
             (round @ [newMatch (u (length round)) (at seeded i) (at seeded (i + 1))])
      else round)"
  by pat_completeness auto
termination
  by (relation "measure (\<lambda>(u, seeded, i, round). length seeded - i)") auto

declare firstRoundLoop.simps [simp del]

definition buildSingleElimFirstRound ::
  "(nat \<Rightarrow> string) \<Rightarrow> (nat \<Rightarrow> nat) \<Rightarrow> string list \<Rightarrow> match list" where
  "buildSingleElimFirstRound u rnd ids = firstRoundLoop u (shuffle rnd ids) 0 []"

text \<open>
  The players of a setup: the shuffled names, each with a fresh id, a default name for
  an empty one and its position as seed.
\<close>

definition seededPlayers :: "(nat \<Rightarrow> string) \<Rightarrow> (nat \<Rightarrow> nat) \<Rightarrow> string list \<Rightarrow> player list" where
  "seededPlayers u rnd names =
     map (\<lambda>(i, name).
            \<lparr>p_id = u i,
             p_name = (if name = [] then ''Player '' @ showNat (i + 1) else name),
             seed = int i + 1\<rparr>)
         (enumerate 0 (shuffle rnd names))"

text \<open>
  \<^verbatim>\<open>handleSetup({ names, mode: selectedMode })\<close>. The calls of \<^verbatim>\<open>uid()\<close> are numbered in the
  order the function makes them: one per player, then six per group, or one per match of
  the first round. The draws of the second shuffle, in single-elimination mode, follow
  those of the first. A refused player count leaves everything but the mode as it was.
  In groups mode there are as many chunks as labels, so \<open>labels ! i\<close> is a label.
\<close>

definition handleSetup :: "(nat \<Rightarrow> string) \<Rightarrow> (nat \<Rightarrow> nat) \<Rightarrow> string list \<Rightarrow> mode \<Rightarrow> app \<Rightarrow> app" where
  "handleSetup u rnd names selectedMode s0 =
     (let s = s0\<lparr>mode := selectedMode\<rparr>;
          count = length names
      in case selectedMode of
        GroupsMode \<Rightarrow>
          if count mod 4 \<noteq> 0 \<or> count < 8 \<or> count > 32 then s
          else
            let seeded = seededPlayers u rnd names;
                groupsCount = count div 4;
                labels = map (\<lambda>i. [char_of (65 + i)]) [0 ..< groupsCount];
                chunksArr = chunk seeded 4;
                built = map (\<lambda>(i, ch).
                          \<lparr>g_name = labels ! i, g_players = map p_id ch,
                           g_matches = scheduleRoundRobin4 (\<lambda>k. u (count + 6 * i + k))
                                         (map p_id ch)\<rparr>)
                        (enumerate 0 chunksArr)
            in s\<lparr>players := seeded, groups := built, rounds := [], stage := Groups\<rparr>
      | SingleMode \<Rightarrow>
          if \<not> isPowerOfTwo count \<or> count < 4 \<or> count > 32 then s
          else
            let seeded = seededPlayers u rnd names;
                firstRound = buildSingleElimFirstRound (\<lambda>k. u (count + k))
                               (\<lambda>k. rnd (count - 1 + k)) (map p_id seeded)
            in s\<lparr>players := seeded, groups := [], rounds := [firstRound], stage := Knockout\<rparr>)"

definition updateGroupMatch :: "string \<Rightarrow> match \<Rightarrow> app \<Rightarrow> app" where
  "updateGroupMatch groupName matchWithScores s =
     s\<lparr>groups :=
         map (\<lambda>g. if g_name g \<noteq> groupName then g
                   else g\<lparr>g_matches :=
                          map (\<lambda>m. if m_id m = m_id matchWithScores
                                    then matchWithScores\<lparr>completed := True\<rparr> else m)
                              (g_matches g)\<rparr>)
             (groups s)\<rparr>"

definition playersIndex :: "app \<Rightarrow> (string \<rightharpoonup> player)" where
  "playersIndex s = fromEntries (map (\<lambda>p. (p_id p, p)) (players s))"

text \<open>
  \<^verbatim>\<open>advanceToKnockout\<close>: with no pairing the state stays as it is (after an alert).
\<close>

definition advanceToKnockout :: "(nat \<Rightarrow> string) \<Rightarrow> (string \<Rightarrow> string \<Rightarrow> int) \<Rightarrow> app \<Rightarrow> error + app" where
  "advanceToKnockout u localeCompare s =
     (case buildKnockout u localeCompare (groups s) (playersIndex s) of
        Inl e \<Rightarrow> Inl e
      | Inr pairings \<Rightarrow>
          if length pairings = 0 then Inr s
          else Inr (s\<lparr>rounds := [pairings], stage := Knockout\<rparr>))"

definition resetAll :: "app \<Rightarrow> app" where
  "resetAll s = s\<lparr>players := [], groups := [], rounds := [], champion := Null, stage := Setup\<rparr>"

text \<open>The state of a first start: the fallbacks of the \<^verbatim>\<open>load\<close> calls.\<close>

definition initialApp :: app where
  "initialApp =
     \<lparr>players = [], groups = [], mode = GroupsMode, stage = Setup, rounds = [],
      champion = Null, target = 21\<rparr>"

text \<open>\<^verbatim>\<open>groups.every(g => g.matches.every(m => m.completed))\<close>, which enables the button
  that generates the knockout bracket.\<close>

definition allCompleted :: "group list \<Rightarrow> bool" where
  "allCompleted gs = list_all (\<lambda>g. list_all completed (g_matches g)) gs"

text \<open>
  What a user can do, one action at a time, as the components of the source allow it.
  \<^item> \<^verbatim>\<open>SetupForm\<close>, with the target selector (11 or 21), is rendered in stage \<open>Setup\<close>.
  \<^item> \<^verbatim>\<open>GroupStage\<close> is rendered in stage \<open>Groups\<close> in groups mode when there are players. Each
    match has a \<^verbatim>\<open>MatchCard\<close> whose save button is disabled while the validator rejects
    the two inputs; the button that generates the bracket is disabled unless all
    matches of all groups are completed (\<^verbatim>\<open>disabled={!allCompleted}\<close>).
  \<^item> \<^verbatim>\<open>KnockoutBracket\<close> is rendered in stage \<open>Knockout\<close> when there are rounds. Every match of
    every round has a \<^verbatim>\<open>MatchCard\<close> with the same save button, which submits the match
    with the two inputs and \<^verbatim>\<open>completed: true\<close> for its round index. (The bracket skin, a
    read-only view of the same rounds that the user switches on and off, is not part of
    the state.)
  \<^item> The header buttons change the stage (the groups button only in groups mode) or
    reset; the champion screen has a button back to the knockout view.
\<close>

inductive step :: "(string \<Rightarrow> string \<Rightarrow> int) \<Rightarrow> app \<Rightarrow> app \<Rightarrow> bool"
  for localeCompare :: "string \<Rightarrow> string \<Rightarrow> int" where
  submitSetup: "stage s = Setup \<Longrightarrow> step localeCompare s (handleSetup u rnd names m s)"
| chooseTarget: "stage s = Setup \<Longrightarrow> t = 11 \<or> t = 21 \<Longrightarrow> step localeCompare s (s\<lparr>target := t\<rparr>)"
| groupScore:
    "stage s = Groups \<Longrightarrow> players s \<noteq> [] \<Longrightarrow> mode s = GroupsMode \<Longrightarrow>
     g \<in> set (groups s) \<Longrightarrow> m \<in> set (g_matches g) \<Longrightarrow>
     validateCornholeScore sa sb (target s) = None \<Longrightarrow>
     step localeCompare s
       (updateGroupMatch (g_name g) (m\<lparr>scoreA := sa, scoreB := sb, completed := True\<rparr>) s)"
| advance:
    "stage s = Groups \<Longrightarrow> players s \<noteq> [] \<Longrightarrow> mode s = GroupsMode \<Longrightarrow>
     allCompleted (groups s) \<Longrightarrow> advanceToKnockout u localeCompare s = Inr s' \<Longrightarrow>
     step localeCompare s s'"
| knockoutScore:
    "stage s = Knockout \<Longrightarrow> rounds s \<noteq> [] \<Longrightarrow> roundIndex < length (rounds s) \<Longrightarrow>
     m \<in> set (rounds s ! roundIndex) \<Longrightarrow>
     validateCornholeScore sa sb (target s) = None \<Longrightarrow>
     submitKnockoutScore u roundIndex (m\<lparr>scoreA := sa, scoreB := sb, completed := True\<rparr>) s
       = Inr s' \<Longrightarrow>
     step localeCompare s s'"
| showSetup: "step localeCompare s (s\<lparr>stage := Setup\<rparr>)"
| showGroups: "mode s = GroupsMode \<Longrightarrow> step localeCompare s (s\<lparr>stage := Groups\<rparr>)"
| showKnockout: "step localeCompare s (s\<lparr>stage := Knockout\<rparr>)"
| reset: "step localeCompare s (resetAll s)"

inductive reachable :: "(string \<Rightarrow> string \<Rightarrow> int) \<Rightarrow> app \<Rightarrow> bool"
  for localeCompare :: "string \<Rightarrow> string \<Rightarrow> int" where
  atStart: "reachable localeCompare initialApp"
| afterStep: "reachable localeCompare s \<Longrightarrow> step localeCompare s s' \<Longrightarrow> reachable localeCompare s'"

section \<open>Example data\<close>

definition played :: "string \<Rightarrow> string \<Rightarrow> string \<Rightarrow> int \<Rightarrow> int \<Rightarrow> match" where
  "played i x y p q =
     \<lparr>m_id = i, m_a = Str x, m_b = Str y, scoreA = Some p, scoreB = Some q, completed = True\<rparr>"

definition idsFrom :: "string \<Rightarrow> nat \<Rightarrow> string" where
  "idsFrom pre k = pre @ replicate k CHR ''x''"


text \<open>The group of the second development test of the source.\<close>

definition exampleIndex :: "string \<rightharpoonup> player" where
  "exampleIndex =
     fromEntries [(''A'', \<lparr>p_id = ''A'', p_name = ''Alfa'', seed = 1\<rparr>),
                  (''B'', \<lparr>p_id = ''B'', p_name = ''Bravo'', seed = 2\<rparr>),
                  (''C'', \<lparr>p_id = ''C'', p_name = ''Charlie'', seed = 3\<rparr>),
                  (''D'', \<lparr>p_id = ''D'', p_name = ''Delta'', seed = 4\<rparr>)]"

definition exampleGroup :: group where
  "exampleGroup =
     \<lparr>g_name = ''X'', g_players = [''A'', ''B'', ''C'', ''D''],
      g_matches = [played ''m1'' ''A'' ''B'' 21 10, played ''m2'' ''C'' ''D'' 21 0]\<rparr>"

text \<open>
  A group of the same four players before any match is saved, and an index that names
  them in the reverse of their order in the group.
\<close>

definition reversedIndex :: "string \<rightharpoonup> player" where
  "reversedIndex =
     fromEntries [(''A'', \<lparr>p_id = ''A'', p_name = ''Delta'', seed = 1\<rparr>),
                  (''B'', \<lparr>p_id = ''B'', p_name = ''Charlie'', seed = 2\<rparr>),
                  (''C'', \<lparr>p_id = ''C'', p_name = ''Bravo'', seed = 3\<rparr>),
                  (''D'', \<lparr>p_id = ''D'', p_name = ''Alfa'', seed = 4\<rparr>)]"

definition freshGroup :: group where
  "freshGroup =
     \<lparr>g_name = ''Y'', g_players = [''A'', ''B'', ''C'', ''D''],
      g_matches = scheduleRoundRobin4 (idsFrom ''y'') [''A'', ''B'', ''C'', ''D'']\<rparr>"

text \<open>The two groups of the third development test of the source, and a third group.\<close>

definition testIndex :: "string \<rightharpoonup> player" where
  "testIndex =
     fromEntries (map (\<lambda>(k, n). (n, \<lparr>p_id = n, p_name = n, seed = k\<rparr>))
       [(1, ''A1''), (2, ''A2''), (3, ''A3''), (4, ''A4''),
        (1, ''B1''), (2, ''B2''), (3, ''B3''), (4, ''B4'')])"

definition groupA :: group where
  "groupA =
     \<lparr>g_name = ''A'', g_players = [''A1'', ''A2'', ''A3'', ''A4''],
      g_matches = [played ''a1'' ''A1'' ''A2'' 21 10, played ''a2'' ''A3'' ''A4'' 21 0]\<rparr>"

definition groupB :: group where
  "groupB =
     \<lparr>g_name = ''B'', g_players = [''B1'', ''B2'', ''B3'', ''B4''],
      g_matches = [played ''b1'' ''B1'' ''B2'' 21 5, played ''b2'' ''B3'' ''B4'' 21 7]\<rparr>"

definition groupC :: group where
  "groupC =
     \<lparr>g_name = ''C'', g_players = [''C1'', ''C2'', ''C3'', ''C4''],
      g_matches = scheduleRoundRobin4 (idsFrom ''c'') [''C1'', ''C2'', ''C3'', ''C4'']\<rparr>"

definition groupD :: group where
  "groupD = \<lparr>g_name = ''D'', g_players = [''D1''], g_matches = []\<rparr>"

text \<open>
  A single-elimination tournament of four players, and the user's action of saving a
  score on match \<open>j\<close> of round \<open>i\<close> of the knockout view.
\<close>

definition bracket0 :: app where
  "bracket0 = handleSetup (idsFrom ''p'') (\<lambda>k. 0) [''w'', ''x'', ''y'', ''z''] SingleMode initialApp"

definition saveScore :: "(nat \<Rightarrow> string) \<Rightarrow> nat \<Rightarrow> nat \<Rightarrow> int \<Rightarrow> int \<Rightarrow> app \<Rightarrow> error + app" where
  "saveScore u i j sa sb s =
     submitKnockoutScore u i
       ((rounds s ! i ! j)\<lparr>scoreA := Some sa, scoreB := Some sb, completed := True\<rparr>) s"

definition orElse :: "error + app \<Rightarrow> app \<Rightarrow> app" where
  "orElse r s = (case r of Inr s' \<Rightarrow> s' | Inl e \<Rightarrow> s)"

definition bracket1 :: app where
  "bracket1 = orElse (saveScore (idsFrom ''q'') 0 0 21 5 bracket0) bracket0"

definition bracket2 :: app where
  "bracket2 = orElse (saveScore (idsFrom ''r'') 0 1 7 21 bracket1) bracket1"

definition bracket3 :: app where
  "bracket3 = orElse (saveScore (idsFrom ''t'') 0 0 21 5 bracket2) bracket2"

section \<open>The scoring validator accepts exactly the legal results\<close>

text \<open>
  C1. For all scores and every target, the validator returns null exactly when both scores
  are present, they differ, the larger one equals the target and the smaller one is below
  the target; otherwise it returns an error message.
\<close>

theorem validate_null_iff:
  "(validateCornholeScore sa sb t = None) =
     (\<exists>x y. sa = Some x \<and> sb = Some y \<and> x \<noteq> y \<and> max x y = t \<and> min x y < t)"
  by (cases sa; cases sb) (auto simp: validateCornholeScore_def)

text \<open>
  C10. The fourth check of the validator never fires. The validator computes the same
  function as its first three checks alone, and the message of the fourth check is never
  its result: two different scores whose maximum is the target have a minimum below
  the target.
\<close>

theorem loser_branch_unreachable:
  "validateCornholeScore sa sb t =
     (case (sa, sb) of
        (Some x, Some y) \<Rightarrow>
          if x = y then Some ''No draws in cornhole''
          else if max x y \<noteq> t then Some (''Winner must have exactly '' @ showInt t)
          else None
      | _ \<Rightarrow> Some ''Enter both scores'')
   \<and> validateCornholeScore sa sb t \<noteq> Some (''Loser must be below '' @ showInt t)
   \<and> \<not> (\<exists>x y. sa = Some x \<and> sb = Some y \<and> x \<noteq> y \<and> max x y = t \<and> t \<le> min x y)"
  by (cases sa; cases sb) (auto simp: validateCornholeScore_def)

section \<open>The round-robin schedule\<close>

lemma length4_list:
  assumes "length ids = 4"
  obtains a b c d where "ids = [a, b, c, d]"
proof -
  from assms obtain a r1 where 1: "ids = a # r1" "length r1 = 3"
    by (cases ids) auto
  then obtain b r2 where 2: "r1 = b # r2" "length r2 = 2"
    by (cases r1) auto
  then obtain c r3 where 3: "r2 = c # r3" "length r3 = 1"
    by (cases r2) auto
  then obtain d where "r3 = [d]"
    by (cases r3) auto
  with 1 2 3 have "ids = [a, b, c, d]" by simp
  then show thesis by (rule that)
qed

lemma pairs_of_four:
  assumes "distinct [a, b, c, d]"
  shows "{{Str x, Str y} | x y. x \<in> set [a, b, c, d] \<and> y \<in> set [a, b, c, d] \<and> x \<noteq> y} =
     {{Str a, Str b}, {Str a, Str c}, {Str a, Str d},
      {Str b, Str c}, {Str b, Str d}, {Str c, Str d}}"
    (is "?L = ?R")
proof
  show "?L \<subseteq> ?R"
  proof
    fix s
    assume "s \<in> ?L"
    then obtain x y where s: "s = {Str x, Str y}"
      and x: "x \<in> {a, b, c, d}" and y: "y \<in> {a, b, c, d}" and "x \<noteq> y"
      by auto
    from x y \<open>x \<noteq> y\<close> show "s \<in> ?R"
      unfolding s by (elim insertE emptyE; simp add: doubleton_eq_iff)
  qed
  show "?R \<subseteq> ?L"
    using assms by auto
qed

text \<open>
  C8. For a list of four player ids the scheduler returns exactly six matches, in the
  order 1v2, 1v3, 1v4, 2v3, 2v4, 3v4 over the input order, all of them not completed and
  without scores. When the four ids are different (the ids of four players), the
  unordered pairs of the six matches are pairwise different and are exactly the
  two-element combinations of the ids.
\<close>

theorem scheduleRoundRobin4_pairs:
  assumes "length ids = 4"
  shows "scheduleRoundRobin4 u ids =
      [newMatch (u 0) (Str (ids ! 0)) (Str (ids ! 1)),
       newMatch (u 1) (Str (ids ! 0)) (Str (ids ! 2)),
       newMatch (u 2) (Str (ids ! 0)) (Str (ids ! 3)),
       newMatch (u 3) (Str (ids ! 1)) (Str (ids ! 2)),
       newMatch (u 4) (Str (ids ! 1)) (Str (ids ! 3)),
       newMatch (u 5) (Str (ids ! 2)) (Str (ids ! 3))]
    \<and> length (scheduleRoundRobin4 u ids) = 6
    \<and> (\<forall>m \<in> set (scheduleRoundRobin4 u ids).
          \<not> completed m \<and> scoreA m = None \<and> scoreB m = None)
    \<and> (distinct ids \<longrightarrow>
         distinct (map pairOf (scheduleRoundRobin4 u ids)) \<and>
         set (map pairOf (scheduleRoundRobin4 u ids)) =
           {{Str x, Str y} | x y. x \<in> set ids \<and> y \<in> set ids \<and> x \<noteq> y})"
proof -
  from assms obtain a b c d where ids: "ids = [a, b, c, d]"
    by (rule length4_list)
  have sched: "scheduleRoundRobin4 u ids =
      [newMatch (u 0) (Str a) (Str b), newMatch (u 1) (Str a) (Str c),
       newMatch (u 2) (Str a) (Str d), newMatch (u 3) (Str b) (Str c),
       newMatch (u 4) (Str b) (Str d), newMatch (u 5) (Str c) (Str d)]"
    by (simp add: ids scheduleRoundRobin4_def at_def Let_def)
  have dist: "distinct (map pairOf (scheduleRoundRobin4 u ids))" if "distinct ids"
    using that unfolding sched
    by (simp add: ids pairOf_def newMatch_def doubleton_eq_iff)
  have pairs: "set (map pairOf (scheduleRoundRobin4 u ids)) =
      {{Str x, Str y} | x y. x \<in> set ids \<and> y \<in> set ids \<and> x \<noteq> y}" if "distinct ids"
  proof -
    from that have d: "distinct [a, b, c, d]" by (simp add: ids)
    have "set (map pairOf (scheduleRoundRobin4 u ids)) =
        {{Str a, Str b}, {Str a, Str c}, {Str a, Str d},
         {Str b, Str c}, {Str b, Str d}, {Str c, Str d}}"
      by (simp add: sched pairOf_def newMatch_def)
    also have "\<dots> = {{Str x, Str y} | x y. x \<in> set ids \<and> y \<in> set ids \<and> x \<noteq> y}"
      unfolding ids by (rule pairs_of_four [OF d, symmetric])
    finally show ?thesis .
  qed
  show ?thesis
    using dist pairs unfolding sched by (simp add: ids newMatch_def)
qed

theorem scheduleRoundRobin4_pairs_witness:
  "length [''p1'', ''p2'', ''p3'', ''p4''] = 4
   \<and> distinct [''p1'', ''p2'', ''p3'', ''p4'']
   \<and> map (\<lambda>m. (m_a m, m_b m, scoreA m, scoreB m, completed m))
        (scheduleRoundRobin4 (\<lambda>k. replicate k CHR ''x'') [''p1'', ''p2'', ''p3'', ''p4'']) =
      [(Str ''p1'', Str ''p2'', None, None, False), (Str ''p1'', Str ''p3'', None, None, False),
       (Str ''p1'', Str ''p4'', None, None, False), (Str ''p2'', Str ''p3'', None, None, False),
       (Str ''p2'', Str ''p4'', None, None, False), (Str ''p3'', Str ''p4'', None, None, False)]
   \<and> distinct (map pairOf
        (scheduleRoundRobin4 (\<lambda>k. replicate k CHR ''x'') [''p1'', ''p2'', ''p3'', ''p4'']))"
  using scheduleRoundRobin4_pairs [of "[''p1'', ''p2'', ''p3'', ''p4'']" "\<lambda>k. replicate k CHR ''x''"]
  by (simp add: newMatch_def pairOf_def doubleton_eq_iff)

section \<open>The podium\<close>

lemma decided_cases:
  assumes "decided m"
  obtains x y where "scoreA m = Some x" "scoreB m = Some y" "x \<noteq> y" "completed m"
  using assms by (auto simp: decided_def split: option.splits)

lemma decided_loser:
  "decided m \<Longrightarrow> (if gt (scoreA m) (scoreB m) then m_b m else m_a m) = lowerScorer m"
  by (erule decided_cases) (auto simp: lowerScorer_def)


lemma decided_losing_score:
  "decided m \<Longrightarrow> (if gt (scoreA m) (scoreB m) then scoreB m else scoreA m) = lowerScore m"
  by (erule decided_cases) (auto simp: lowerScore_def)

lemma decided_lowerScore: "decided m \<Longrightarrow> \<exists>v. lowerScore m = Some v"
  by (erule decided_cases) (auto simp: lowerScore_def)

text \<open>
  C5, as the code has it. When the second-to-last round consists of two decided matches,
  bronze is the semifinal loser with the higher losing score; when the two losing scores
  are equal, bronze is the loser of the first semifinal. (An undefined loser slot gives
  null.)
\<close>

theorem podium_bronze:
  assumes "2 \<le> length rs"
    and "rs ! (length rs - 2) = [s1, s2]"
    and "decided s1" and "decided s2"
  shows "bronze (getPodium rs c) =
           orNull (if gt (lowerScore s2) (lowerScore s1) then lowerScorer s2 else lowerScorer s1)
       \<and> (lowerScore s1 = lowerScore s2 \<longrightarrow>
            bronze (getPodium rs c) = orNull (lowerScorer s1))"
proof -
  from assms(1) have ne: "rs \<noteq> []" by auto
  obtain v1 v2 where v: "lowerScore s1 = Some v1" "lowerScore s2 = Some v2"
    using decided_lowerScore assms(3,4) by blast
  have b: "bronze (getPodium rs c) =
      orNull (atRef [lowerScorer s1, lowerScorer s2]
        (if orMinus1 (lowerScore s2) > orMinus1 (lowerScore s1) then 1 else 0))"
    using assms(1) ne
    by (simp add: getPodium_def Let_def assms(2) decided_loser [OF assms(3)]
        decided_loser [OF assms(4)] decided_losing_score [OF assms(3)]
        decided_losing_score [OF assms(4)] split: list.split)
  show ?thesis unfolding b by (simp add: v orMinus1_def atRef_def)
qed

theorem podium_bronze_witness:
  "2 \<le> length [[played ''s1'' ''a'' ''b'' 21 5, played ''s2'' ''c'' ''d'' 7 21],
                [played ''f'' ''a'' ''d'' 21 3]]
   \<and> decided (played ''s1'' ''a'' ''b'' 21 5) \<and> decided (played ''s2'' ''c'' ''d'' 7 21)
   \<and> bronze (getPodium [[played ''s1'' ''a'' ''b'' 21 5, played ''s2'' ''c'' ''d'' 7 21],
                         [played ''f'' ''a'' ''d'' 21 3]] (Str ''a'')) = Str ''c''
   \<and> bronze (getPodium [[played ''s1'' ''a'' ''b'' 21 5, played ''s2'' ''c'' ''d'' 5 21],
                         [played ''f'' ''a'' ''d'' 21 3]] (Str ''a'')) = Str ''b''"
  using podium_bronze [of "[[played ''s1'' ''a'' ''b'' 21 5, played ''s2'' ''c'' ''d'' 7 21],
                [played ''f'' ''a'' ''d'' 21 3]]" "played ''s1'' ''a'' ''b'' 21 5"
                "played ''s2'' ''c'' ''d'' 7 21" "Str ''a''"]
    podium_bronze [of "[[played ''s1'' ''a'' ''b'' 21 5, played ''s2'' ''c'' ''d'' 5 21],
                [played ''f'' ''a'' ''d'' 21 3]]" "played ''s1'' ''a'' ''b'' 21 5"
                "played ''s2'' ''c'' ''d'' 5 21" "Str ''a''"]
  by (simp add: played_def decided_def lowerScore_def lowerScorer_def orNull_def)

text \<open>
  C5 as stated fails on a tie: with losing scores 5 and 5 the second semifinal's loser is
  \<open>c\<close>, and bronze is \<open>b\<close>, the loser of the first semifinal.
\<close>

theorem podium_bronze_tie_counterexample:
  "decided (played ''s1'' ''a'' ''b'' 21 5) \<and> decided (played ''s2'' ''c'' ''d'' 5 21)
   \<and> lowerScore (played ''s1'' ''a'' ''b'' 21 5) = lowerScore (played ''s2'' ''c'' ''d'' 5 21)
   \<and> lowerScorer (played ''s2'' ''c'' ''d'' 5 21) = Str ''c''
   \<and> bronze (getPodium [[played ''s1'' ''a'' ''b'' 21 5, played ''s2'' ''c'' ''d'' 5 21],
                         [played ''f'' ''a'' ''d'' 21 3]] (Str ''a'')) = Str ''b''
   \<and> bronze (getPodium [[played ''s1'' ''a'' ''b'' 21 5, played ''s2'' ''c'' ''d'' 5 21],
                         [played ''f'' ''a'' ''d'' 21 3]] (Str ''a''))
       \<noteq> lowerScorer (played ''s2'' ''c'' ''d'' 5 21)"
  by (simp add: played_def decided_def lowerScore_def lowerScorer_def orNull_def
      getPodium_def Let_def orMinus1_def atRef_def)

text \<open>
  C6, as the code has it. Gold is always the given champion. Silver is null when there is
  no round or the last round is empty, and is otherwise taken from the first match of the
  last round, however many matches that round has: the other participant when the
  champion plays in it, else the one who does not have the higher score. Bronze is null
  whenever there are fewer than two rounds or the prior round has fewer than two matches.
\<close>

theorem podium_places:
  "gold (getPodium rs c) = c
   \<and> silver (getPodium rs c) =
       (if rs = [] then Null
        else case last rs of
          [] \<Rightarrow> Null
        | f # _ \<Rightarrow>
            if m_a f = c then m_b f else if m_b f = c then m_a f
            else if gt (scoreA f) (scoreB f) then m_b f else m_a f)
   \<and> (length rs < 2 \<or> length (rs ! (length rs - 2)) < 2
        \<longrightarrow> bronze (getPodium rs c) = Null)"
proof -
  have g: "gold (getPodium rs c) = c"
    by (simp add: getPodium_def Let_def split: list.split)
  have s: "silver (getPodium rs c) =
       (if rs = [] then Null
        else case last rs of
          [] \<Rightarrow> Null
        | f # _ \<Rightarrow>
            if m_a f = c then m_b f else if m_b f = c then m_a f
            else if gt (scoreA f) (scoreB f) then m_b f else m_a f)"
    by (simp add: getPodium_def Let_def last_conv_nth split: list.split)
  have b: "bronze (getPodium rs c) = Null"
    if "length rs < 2 \<or> length (rs ! (length rs - 2)) < 2"
    using that by (auto simp: getPodium_def Let_def split: list.split)
  show ?thesis using g s b by blast
qed

theorem podium_places_witness:
  "length [[played ''f'' ''a'' ''d'' 21 3]] < 2
   \<and> getPodium [[played ''f'' ''a'' ''d'' 21 3]] (Str ''a'') =
       \<lparr>gold = Str ''a'', silver = Str ''d'', bronze = Null\<rparr>"
  using podium_places [of "[[played ''f'' ''a'' ''d'' 21 3]]" "Str ''a''"]
  by (simp add: played_def)

text \<open>
  C6 as stated fails: a last round of two matches is not a last round of exactly one
  match, yet silver is set (from its first match); and a prior round of three matches
  still yields a bronze.
\<close>

theorem podium_exactness_counterexample:
  "length (last [[played ''s1'' ''a'' ''b'' 21 5, played ''s2'' ''c'' ''d'' 7 21]]) = 2
   \<and> silver (getPodium [[played ''s1'' ''a'' ''b'' 21 5, played ''s2'' ''c'' ''d'' 7 21]]
        (Str ''a'')) = Str ''b''
   \<and> length [played ''q1'' ''a'' ''b'' 21 5, played ''q2'' ''c'' ''d'' 7 21,
              played ''q3'' ''e'' ''f'' 21 9] = 3
   \<and> bronze (getPodium [[played ''q1'' ''a'' ''b'' 21 5, played ''q2'' ''c'' ''d'' 7 21,
                          played ''q3'' ''e'' ''f'' 21 9],
                         [played ''f'' ''a'' ''d'' 21 3]] (Str ''a'')) = Str ''c''"
  by (simp add: played_def getPodium_def Let_def orMinus1_def orNull_def atRef_def)

section \<open>Round advancement\<close>




lemma withScore_length: "length (withScore i m prev) = length prev"
  by (simp add: withScore_def)





section \<open>The standings table and its order\<close>

lemma fromEntries_distinct:
  assumes "distinct (map fst kvs)"
  shows "(fromEntries kvs k = Some v) = ((k, v) \<in> set kvs)"
proof -
  have "distinct (map fst (rev kvs))" using assms by (simp add: rev_map [symmetric])
  then show ?thesis unfolding fromEntries_def by simp
qed

lemma row_entries:
  "map (\<lambda>(i, r). (r_id r, i)) (enumerate 0 (map (\<lambda>p. f p) ps)) =
     zip (map (\<lambda>p. r_id (f p)) ps) [0 ..< length ps]"
  by (simp add: enumerate_eq_zip zip_map1 zip_map2 map_zip_map zip_commute [of "[0..<length ps]"] split_def)

lemma row_lookup:
  assumes "distinct ps" and "\<And>p. r_id (f p) = p" and "i < length ps"
  shows "fromEntries (map (\<lambda>(i, r). (r_id r, i)) (enumerate 0 (map f ps))) (ps ! i) = Some i"
proof -
  have e: "map (\<lambda>(i, r). (r_id r, i)) (enumerate 0 (map f ps)) = zip ps [0 ..< length ps]"
    using row_entries [of f ps] by (simp add: assms(2))
  have d: "distinct (map fst (zip ps [0 ..< length ps]))"
    using assms(1) by simp
  have "(ps ! i, i) \<in> set (zip ps [0 ..< length ps])"
    using assms(3) by (auto simp: set_zip)
  then show ?thesis
    unfolding e by (simp add: fromEntries_distinct [OF d])
qed

lemma upd_length [simp]: "length (upd i f t) = length t"
  by (simp add: upd_def)

lemma upd_nth: "k < length t \<Longrightarrow> upd i f t ! k = (if k = i then f (t ! k) else t ! k)"
  by (simp add: upd_def)

lemma resultsOf_append: "resultsOf p (ms @ ns) = resultsOf p ms @ resultsOf p ns"
  by (simp add: resultsOf_def)

lemma resultsOf_single_pending: "\<not> completed m \<Longrightarrow> resultsOf p [m] = []"
  by (simp add: resultsOf_def split: option.split)

lemma resultsOf_single:
  "completed m \<Longrightarrow> scoreA m = Some x \<Longrightarrow> scoreB m = Some y \<Longrightarrow>
   resultsOf p [m] = (if m_a m = Str p then [(x, y)] else []) @ (if m_b m = Str p then [(y, x)] else [])"
  by (simp add: resultsOf_def)

lemma expectedRow_id [simp]: "r_id (expectedRow idx ms p) = p"
  by (simp add: expectedRow_def Let_def)

lemma upd_nth_applyAt: "k < length t \<Longrightarrow> upd i f t ! k = applyAt k i f (t ! k)"
  by (simp add: upd_def applyAt_def)

lemma applyAt_same: "applyAt k k f r = f r"
  by (simp add: applyAt_def)

lemma applyAt_other: "i \<noteq> k \<Longrightarrow> applyAt k i f r = r"
  by (simp add: applyAt_def)

lemma matchStep_expected:
  assumes d: "distinct ps"
    and a: "m_a m = Str (ps ! i)" "i < length ps"
    and b: "m_b m = Str (ps ! j)" "j < length ps"
    and c: "completed m \<longrightarrow> decided m"
    and row: "row = fromEntries (map (\<lambda>(i, r). (r_id r, i)) (enumerate 0 (map (expectedRow idx []) ps)))"
  shows "matchStep row (map (expectedRow idx seen) ps) m =
           Inr (map (expectedRow idx (seen @ [m])) ps)"
proof (cases "completed m")
  case False
  then show ?thesis
    by (simp add: matchStep_def expectedRow_def resultsOf_append resultsOf_single_pending)
next
  case True
  with c have "decided m" by simp
  then obtain x y where xy: "scoreA m = Some x" "scoreB m = Some y" "x \<noteq> y"
    by (rule decided_cases)
  have ra: "row (keyOf (m_a m)) = Some i"
    unfolding row a(1) using row_lookup [OF d _ a(2), of "expectedRow idx []"] by simp
  have rb: "row (keyOf (m_b m)) = Some j"
    unfolding row b(1) using row_lookup [OF d _ b(2), of "expectedRow idx []"] by simp
  have res: "resultsOf (ps ! k) (seen @ [m]) =
      resultsOf (ps ! k) seen @ (if k = i then [(x, y)] else []) @ (if k = j then [(y, x)] else [])"
    if "k < length ps" for k
    using that d a(2) b(2)
    by (simp add: resultsOf_append resultsOf_single [OF True xy(1,2)] a b nth_eq_iff_index_eq eq_commute)
  define t0 where "t0 = upd j (\<lambda>r. r\<lparr>r_PD := sub (r_PF r) (r_PA r)\<rparr>)
             (upd j (\<lambda>r. r\<lparr>r_PA := add (r_PA r) (Num x)\<rparr>)
             (upd j (\<lambda>r. r\<lparr>r_PF := add (r_PF r) (Num y)\<rparr>)
             (upd i (\<lambda>r. r\<lparr>r_PD := sub (r_PF r) (r_PA r)\<rparr>)
             (upd i (\<lambda>r. r\<lparr>r_PA := add (r_PA r) (Num y)\<rparr>)
             (upd i (\<lambda>r. r\<lparr>r_PF := add (r_PF r) (Num x)\<rparr>)
             (upd j (\<lambda>r. r\<lparr>r_P := r_P r + 1\<rparr>)
             (upd i (\<lambda>r. r\<lparr>r_P := r_P r + 1\<rparr>)
             (map (expectedRow idx seen) ps))))))))"
  define t' where "t' = (if y < x
          then upd i (\<lambda>r. r\<lparr>r_Pts := r_Pts r + 3\<rparr>)
                        (upd j (\<lambda>r. r\<lparr>r_L := r_L r + 1\<rparr>)
                          (upd i (\<lambda>r. r\<lparr>r_W := r_W r + 1\<rparr>) t0))
          else upd j (\<lambda>r. r\<lparr>r_Pts := r_Pts r + 3\<rparr>)
                        (upd i (\<lambda>r. r\<lparr>r_L := r_L r + 1\<rparr>)
                          (upd j (\<lambda>r. r\<lparr>r_W := r_W r + 1\<rparr>) t0)))"
  have 1: "matchStep row (map (expectedRow idx seen) ps) m = Inr t'"
    unfolding matchStep_def t'_def t0_def Let_def by (simp add: True ra rb xy)
  have 2: "length t' = length ps" by (simp add: t'_def t0_def)
  have 3: "t' ! k = expectedRow idx (seen @ [m]) (ps ! k)" if k: "k < length ps" for k
  proof -
    have chain: "t' ! k = (if y < x
          then applyAt k i (\<lambda>r. r\<lparr>r_Pts := r_Pts r + 3\<rparr>)
                        (applyAt k j (\<lambda>r. r\<lparr>r_L := r_L r + 1\<rparr>)
                          (applyAt k i (\<lambda>r. r\<lparr>r_W := r_W r + 1\<rparr>) (t0 ! k)))
          else applyAt k j (\<lambda>r. r\<lparr>r_Pts := r_Pts r + 3\<rparr>)
                        (applyAt k i (\<lambda>r. r\<lparr>r_L := r_L r + 1\<rparr>)
                          (applyAt k j (\<lambda>r. r\<lparr>r_W := r_W r + 1\<rparr>) (t0 ! k))))"
      using k unfolding t'_def by (simp add: upd_nth_applyAt t0_def)
    have chain0: "t0 ! k = applyAt k j (\<lambda>r. r\<lparr>r_PD := sub (r_PF r) (r_PA r)\<rparr>)
             (applyAt k j (\<lambda>r. r\<lparr>r_PA := add (r_PA r) (Num x)\<rparr>)
             (applyAt k j (\<lambda>r. r\<lparr>r_PF := add (r_PF r) (Num y)\<rparr>)
             (applyAt k i (\<lambda>r. r\<lparr>r_PD := sub (r_PF r) (r_PA r)\<rparr>)
             (applyAt k i (\<lambda>r. r\<lparr>r_PA := add (r_PA r) (Num y)\<rparr>)
             (applyAt k i (\<lambda>r. r\<lparr>r_PF := add (r_PF r) (Num x)\<rparr>)
             (applyAt k j (\<lambda>r. r\<lparr>r_P := r_P r + 1\<rparr>)
             (applyAt k i (\<lambda>r. r\<lparr>r_P := r_P r + 1\<rparr>)
             (expectedRow idx seen (ps ! k)))))))))"
      using k unfolding t0_def by (simp add: upd_nth_applyAt)
    consider "k = i" "k = j" | "k = i" "k \<noteq> j" | "k \<noteq> i" "k = j" | "k \<noteq> i" "k \<noteq> j"
      by blast
    then show ?thesis
    proof cases
      case 1
      then have ji: "j = k" "i = k" by simp_all
      show ?thesis unfolding chain chain0 ji using xy(3) res [OF k]
        by (simp add: applyAt_same expectedRow_def Let_def ji)
    next
      case 2
      then have ji: "j \<noteq> k" "i = k" by simp_all
      show ?thesis unfolding chain chain0 ji(2) using xy(3) res [OF k] ji(1)
        by (simp add: applyAt_same applyAt_other expectedRow_def Let_def ji)
    next
      case 3
      then have ji: "j = k" "i \<noteq> k" by simp_all
      show ?thesis unfolding chain chain0 ji(1) using xy(3) res [OF k] ji(2)
        by (simp add: applyAt_same applyAt_other expectedRow_def Let_def ji)
    next
      case 4
      then have ji: "j \<noteq> k" "i \<noteq> k" by simp_all
      show ?thesis unfolding chain chain0 using res [OF k] ji
        by (simp add: applyAt_other expectedRow_def Let_def)
    qed
  qed
  have "t' = map (expectedRow idx (seen @ [m])) ps"
    by (rule nth_equalityI) (simp_all add: 2 3)
  with 1 show ?thesis by simp
qed

lemma standingsLoop_expected:
  assumes d: "distinct ps"
    and wf: "\<forall>m \<in> set ms. (\<exists>p \<in> set ps. m_a m = Str p) \<and> (\<exists>p \<in> set ps. m_b m = Str p) \<and>
               (completed m \<longrightarrow> decided m)"
    and row: "row = fromEntries (map (\<lambda>(i, r). (r_id r, i)) (enumerate 0 (map (expectedRow idx []) ps)))"
  shows "standingsLoop row (map (expectedRow idx seen) ps) ms =
           Inr (map (expectedRow idx (seen @ ms)) ps)"
  using wf
proof (induction ms arbitrary: seen)
  case Nil
  then show ?case by simp
next
  case (Cons m ms)
  from Cons.prems obtain i j where a: "m_a m = Str (ps ! i)" "i < length ps"
    and b: "m_b m = Str (ps ! j)" "j < length ps" and c: "completed m \<longrightarrow> decided m"
    by (auto simp: in_set_conv_nth)
  have step: "matchStep row (map (expectedRow idx seen) ps) m =
           Inr (map (expectedRow idx (seen @ [m])) ps)"
    by (rule matchStep_expected [OF d a b c row])
  have "standingsLoop row (map (expectedRow idx (seen @ [m])) ps) ms =
           Inr (map (expectedRow idx ((seen @ [m]) @ ms)) ps)"
    using Cons.prems by (intro Cons.IH) simp
  then show ?case by (simp add: step)
qed

lemma initial_table:
  "map (\<lambda>pid. \<lparr>r_id = pid, r_name = nameOf idx pid,
                               r_P = 0, r_W = 0, r_L = 0, r_PF = Num 0, r_PA = Num 0,
                               r_PD = Num 0, r_Pts = 0\<rparr>) ps =
     map (expectedRow (nameOf idx) []) ps"
  by (simp add: expectedRow_def resultsOf_def)

lemma computeStandings_expected:
  assumes "wellFormed g"
  shows "computeStandings lc g idx =
     Inr (sortBy (cmpRows lc) (map (expectedRow (nameOf idx) (g_matches g)) (g_players g)))"
proof -
  from assms have d: "distinct (g_players g)"
    and wf: "\<forall>m \<in> set (g_matches g). (\<exists>p \<in> set (g_players g). m_a m = Str p) \<and>
        (\<exists>p \<in> set (g_players g). m_b m = Str p) \<and> (completed m \<longrightarrow> decided m)"
    by (simp_all add: wellFormed_def)
  show ?thesis
    unfolding computeStandings_def initial_table Let_def
    using standingsLoop_expected [OF d wf refl, of "nameOf idx" "[]"] by simp
qed

lemma mset_insertRow: "mset (insertRow cmp x ys) = add_mset x (mset ys)"
  by (induction ys) auto

lemma mset_sortBy: "mset (sortBy cmp xs) = mset xs"
  unfolding sortBy_def by (induction xs) (auto simp: mset_insertRow)

lemma set_insertRow: "set (insertRow cmp x ys) = insert x (set ys)"
  by (induction ys) auto

lemma set_sortBy: "set (sortBy cmp xs) = set xs"
  unfolding sortBy_def by (induction xs) (auto simp: set_insertRow)

lemma sorted_insertRow:
  assumes asym: "\<And>a b. a \<in> S \<Longrightarrow> b \<in> S \<Longrightarrow> negative (cmp a b) \<Longrightarrow> \<not> negative (cmp b a)"
    and ntr: "\<And>a b c. a \<in> S \<Longrightarrow> b \<in> S \<Longrightarrow> c \<in> S \<Longrightarrow> negative (cmp a c) \<Longrightarrow>
                negative (cmp a b) \<or> negative (cmp b c)"
    and "x \<in> S" and "set ys \<subseteq> S"
    and "sorted_wrt (\<lambda>a b. \<not> negative (cmp b a)) ys"
  shows "sorted_wrt (\<lambda>a b. \<not> negative (cmp b a)) (insertRow cmp x ys)"
  using assms(3-)
proof (induction ys)
  case Nil
  then show ?case by simp
next
  case (Cons y ys)
  show ?case
  proof (cases "negative (cmp y x)")
    case True
    have "\<not> negative (cmp x y)" using asym [of y x] True Cons.prems by auto
    with True Cons show ?thesis by (auto simp: set_insertRow)
  next
    case False
    have "\<not> negative (cmp z x)" if "z \<in> set ys" for z
    proof
      assume zx: "negative (cmp z x)"
      have "\<not> negative (cmp z y)" using Cons.prems(3) that by simp
      with ntr [of z y x] zx False that Cons.prems show False by auto
    qed
    with False Cons.prems show ?thesis by auto
  qed
qed

lemma sorted_sortBy:
  assumes asym: "\<And>a b. a \<in> S \<Longrightarrow> b \<in> S \<Longrightarrow> negative (cmp a b) \<Longrightarrow> \<not> negative (cmp b a)"
    and ntr: "\<And>a b c. a \<in> S \<Longrightarrow> b \<in> S \<Longrightarrow> c \<in> S \<Longrightarrow> negative (cmp a c) \<Longrightarrow>
                negative (cmp a b) \<or> negative (cmp b c)"
    and "set xs \<subseteq> S"
  shows "sorted_wrt (\<lambda>a b. \<not> negative (cmp b a)) (sortBy cmp xs)"
  using assms(3)
proof (induction xs)
  case Nil
  then show ?case by (simp add: sortBy_def)
next
  case (Cons x xs)
  have "sorted_wrt (\<lambda>a b. \<not> negative (cmp b a)) (insertRow cmp x (sortBy cmp xs))"
    using Cons by (intro sorted_insertRow [where S = S] asym ntr) (auto simp: set_sortBy)
  then show ?case by (simp add: sortBy_def)
qed

lemma filter_insertRow:
  assumes "\<And>a b. P a \<Longrightarrow> P b \<Longrightarrow> \<not> negative (cmp a b)"
  shows "filter P (insertRow cmp x ys) = (if P x then x # filter P ys else filter P ys)"
  using assms by (induction ys) auto

lemma filter_sortBy:
  assumes "\<And>a b. P a \<Longrightarrow> P b \<Longrightarrow> \<not> negative (cmp a b)"
  shows "filter P (sortBy cmp xs) = filter P xs"
  unfolding sortBy_def by (induction xs) (simp_all add: filter_insertRow [of P cmp, OF assms])

lemma consistent_asym: "consistent c \<Longrightarrow> c x y < 0 \<Longrightarrow> \<not> c y x < 0"
  unfolding consistent_def by (metis less_asym)

lemma consistent_rev: "consistent c \<Longrightarrow> (c y x \<le> 0) = (\<not> c x y < 0)"
  unfolding consistent_def by (metis not_less)

lemma consistent_ntrans:
  assumes "consistent c" and "c x z < 0"
  shows "c x y < 0 \<or> c y z < 0"
proof (rule ccontr)
  assume "\<not> (c x y < 0 \<or> c y z < 0)"
  then have "c y x \<le> 0" "c z y \<le> 0"
    using consistent_rev [OF assms(1)] by auto
  then have "c z x \<le> 0"
    using assms(1) unfolding consistent_def by blast
  then show False
    using consistent_rev [OF assms(1), of z x] assms(2) by simp
qed

lemma consistent_total: "consistent c \<Longrightarrow> c x y < 0 \<or> c y x < 0 \<or> c x y = 0"
  unfolding consistent_def by (metis not_less_iff_gr_or_eq)

lemma consistent_tie:
  assumes "consistent c" and "c r a = 0" and "c r b = 0"
  shows "\<not> c a b < 0"
proof -
  have "c b r \<le> 0" using consistent_rev [OF assms(1), of b r] assms(3) by simp
  moreover have "c r a \<le> 0" using assms(2) by simp
  ultimately have "c b a \<le> 0" using assms(1) unfolding consistent_def by blast
  then show ?thesis using consistent_rev [OF assms(1), of b a] by simp
qed

lemma numeric_expectedRow: "numeric (expectedRow idx ms p)"
  by (simp add: numeric_def expectedRow_def Let_def)

lemma numeric_cases:
  assumes "numeric r"
  obtains d f where "r_PD r = Num d" "r_PF r = Num f"
  using assms by (cases "r_PD r"; cases "r_PF r") (auto simp: numeric_def)

lemma negative_cmpRows:
  assumes "numeric x" "numeric y"
  shows "negative (cmpRows lc x y) = rankedBefore lc x y"
proof -
  from assms(1) obtain dx fx where x: "r_PD x = Num dx" "r_PF x = Num fx" by (rule numeric_cases)
  from assms(2) obtain dy fy where y: "r_PD y = Num dy" "r_PF y = Num fy" by (rule numeric_cases)
  show ?thesis by (auto simp: cmpRows_def rankedBefore_def x y)
qed

lemma lex_asym:
  fixes kx ky :: int
  assumes "R \<Longrightarrow> \<not> R'"
  shows "(ky < kx \<or> (kx = ky \<and> R)) \<Longrightarrow> \<not> (kx < ky \<or> (ky = kx \<and> R'))"
  using assms by auto

lemma lex_ntrans:
  fixes kx ky kz :: int
  assumes "Rxz \<Longrightarrow> Rxy \<or> Ryz"
  shows "(kz < kx \<or> (kx = kz \<and> Rxz)) \<Longrightarrow>
         (ky < kx \<or> (kx = ky \<and> Rxy)) \<or> (kz < ky \<or> (ky = kz \<and> Ryz))"
  using assms by auto

lemma rankedBefore_asym:
  assumes "consistent lc" "numeric x" "numeric y" "rankedBefore lc x y"
  shows "\<not> rankedBefore lc y x"
proof -
  from assms(2) obtain dx fx where x: "r_PD x = Num dx" "r_PF x = Num fx" by (rule numeric_cases)
  from assms(3) obtain dy fy where y: "r_PD y = Num dy" "r_PF y = Num fy" by (rule numeric_cases)
  note l = consistent_asym [OF assms(1), of "r_name x" "r_name y"]
  show ?thesis
    using assms(4) unfolding rankedBefore_def x y numLess.simps jsnum.inject
    by (intro lex_asym [THEN lex_asym, THEN lex_asym, OF l])
qed

lemma rankedBefore_ntrans:
  assumes "consistent lc" "numeric x" "numeric y" "numeric z" "rankedBefore lc x z"
  shows "rankedBefore lc x y \<or> rankedBefore lc y z"
proof -
  from assms(2) obtain dx fx where x: "r_PD x = Num dx" "r_PF x = Num fx" by (rule numeric_cases)
  from assms(3) obtain dy fy where y: "r_PD y = Num dy" "r_PF y = Num fy" by (rule numeric_cases)
  from assms(4) obtain dz fz where z: "r_PD z = Num dz" "r_PF z = Num fz" by (rule numeric_cases)
  note l = consistent_ntrans [OF assms(1), of "r_name x" "r_name z" "r_name y"]
  show ?thesis
    using assms(5) unfolding rankedBefore_def x y z numLess.simps jsnum.inject
    by (intro lex_ntrans [THEN lex_ntrans, THEN lex_ntrans, OF l])
qed

lemma rankedBefore_total:
  assumes "consistent lc" "numeric x" "numeric y"
  shows "rankedBefore lc x y \<or> rankedBefore lc y x \<or> tied lc x y"
proof -
  from assms(2) obtain dx fx where x: "r_PD x = Num dx" "r_PF x = Num fx" by (rule numeric_cases)
  from assms(3) obtain dy fy where y: "r_PD y = Num dy" "r_PF y = Num fy" by (rule numeric_cases)
  note l = consistent_total [OF assms(1), of "r_name x" "r_name y"]
  show ?thesis
    unfolding rankedBefore_def tied_def x y numLess.simps jsnum.inject
    using l by linarith
qed

lemma sub_self_falsy: "\<not> truthyNum (sub v v)"
  by (cases v) simp_all

lemma tied_not_before:
  assumes "consistent lc" "tied lc r a" "tied lc r b"
  shows "\<not> negative (cmpRows lc a b)"
proof -
  from assms(2,3) have eq: "r_Pts b = r_Pts a" "r_PD b = r_PD a" "r_PF b = r_PF a"
    and n: "lc (r_name r) (r_name a) = 0" "lc (r_name r) (r_name b) = 0"
    by (simp_all add: tied_def)
  show ?thesis
    using consistent_tie [OF assms(1) n]
    by (simp add: cmpRows_def eq sub_self_falsy)
qed

lemma codeCompare_swap: "(codeCompare x y < 0) = (0 < codeCompare y x)"
  by (induction x y rule: codeCompare.induct) auto

lemma codeCompare_trans:
  "codeCompare x y \<le> 0 \<Longrightarrow> codeCompare y z \<le> 0 \<Longrightarrow> codeCompare x z \<le> 0"
proof (induction x arbitrary: y z)
  case Nil
  then show ?case by (cases z) auto
next
  case (Cons a x)
  then obtain b y' where y: "y = b # y'" by (cases y) auto
  with Cons.prems obtain c z' where z: "z = c # z'" by (cases z) auto
  show ?case
    using Cons.prems Cons.IH [of y' z'] unfolding y z
    by (auto split: if_splits)
qed

lemma codeCompare_consistent: "consistent codeCompare"
  unfolding consistent_def using codeCompare_swap codeCompare_trans by blast

lemma nameOf_indexName: "idx p \<noteq> None \<Longrightarrow> nameOf idx p = indexName idx p"
  by (auto simp: nameOf_def indexName_def)

lemma indexed_rows:
  assumes "indexed idx g"
  shows "map (expectedRow (nameOf idx) ms) (g_players g) =
         map (expectedRow (indexName idx) ms) (g_players g)"
  using assms by (simp add: indexed_def expectedRow_def nameOf_indexName)

text \<open>
  C4. For a group as the data model has it, a players index that holds the players of
  the group, and a consistent collation, the standings calculator returns a table with
  one row per player of the group. The row of a player carries the player's name from
  the index and counts the completed matches the player took part in: \<open>P\<close> is their
  number, \<open>PF\<close> and \<open>PA\<close> are the sums of the own and of the opponents' scores,
  \<open>PD = PF - PA\<close>, \<open>W\<close> and \<open>L\<close> are the numbers of matches with the higher and with the
  lower score, and \<open>Pts = 3 * W\<close>. The table is sorted by the ranking (points, point
  difference, points for, all descending, then the names of the index ascending); on the
  rows of the table the ranking is total, asymmetric and transitive, also when all
  statistics are zero, and rows that tie keep the order of the group's players.
\<close>

theorem standings:
  assumes "wellFormed g" and "consistent lc" and "indexed idx g"
  shows "\<exists>table. computeStandings lc g idx = Inr table
      \<and> mset table = mset (map (expectedRow (indexName idx) (g_matches g)) (g_players g))
      \<and> (\<forall>r \<in> set table. r_id r \<in> set (g_players g) \<and>
            (\<exists>pl. idx (r_id r) = Some pl \<and>
                  r_name r = (if p_name pl = [] then ''?'' else p_name pl)))
      \<and> (\<forall>r \<in> set table. r_Pts r = 3 * r_W r \<and> r_PD r = sub (r_PF r) (r_PA r))
      \<and> sorted_wrt (\<lambda>x y. \<not> rankedBefore lc y x) table
      \<and> (\<forall>x \<in> set table. \<forall>y \<in> set table.
            (rankedBefore lc x y \<or> rankedBefore lc y x \<or> tied lc x y) \<and>
            \<not> (rankedBefore lc x y \<and> rankedBefore lc y x) \<and>
            (\<forall>z \<in> set table. rankedBefore lc x y \<and> rankedBefore lc y z \<longrightarrow> rankedBefore lc x z))
      \<and> (\<forall>r. filter (tied lc r) table =
               filter (tied lc r)
                 (map (expectedRow (indexName idx) (g_matches g)) (g_players g)))"
proof -
  define rows where "rows = map (expectedRow (indexName idx) (g_matches g)) (g_players g)"
  define table where "table = sortBy (cmpRows lc) rows"
  have num: "numeric r" if "r \<in> set rows" for r
    using that by (auto simp: rows_def numeric_expectedRow)
  have set: "set table = set rows" by (simp add: table_def set_sortBy)
  have 1: "computeStandings lc g idx = Inr table"
    unfolding table_def rows_def indexed_rows [OF assms(3), symmetric]
    by (rule computeStandings_expected [OF assms(1)])
  have 7: "r_id r \<in> set (g_players g) \<and>
            (\<exists>pl. idx (r_id r) = Some pl \<and>
                  r_name r = (if p_name pl = [] then ''?'' else p_name pl))"
    if "r \<in> set table" for r
  proof -
    from that obtain p where p: "p \<in> set (g_players g)"
      and r: "r = expectedRow (indexName idx) (g_matches g) p"
      unfolding set rows_def by auto
    from p assms(3) obtain pl where pl: "idx p = Some pl"
      by (auto simp: indexed_def)
    have "r_id r = p" and "r_name r = (if p_name pl = [] then ''?'' else p_name pl)"
      by (simp_all add: r expectedRow_def Let_def indexName_def pl)
    with p pl show ?thesis by simp
  qed
  have 2: "mset table = mset rows" by (simp add: table_def mset_sortBy)
  have 3: "r_Pts r = 3 * r_W r \<and> r_PD r = sub (r_PF r) (r_PA r)" if "r \<in> set table" for r
    using that unfolding set rows_def by (auto simp: expectedRow_def Let_def)
  have "sorted_wrt (\<lambda>a b. \<not> negative (cmpRows lc b a)) table"
    unfolding table_def
  proof (rule sorted_sortBy [where S = "set rows"])
    fix a b assume "a \<in> set rows" "b \<in> set rows" "negative (cmpRows lc a b)"
    then show "\<not> negative (cmpRows lc b a)"
      using rankedBefore_asym [OF assms(2), of a b] by (simp add: negative_cmpRows num)
  next
    fix a b c assume "a \<in> set rows" "b \<in> set rows" "c \<in> set rows" "negative (cmpRows lc a c)"
    then show "negative (cmpRows lc a b) \<or> negative (cmpRows lc b c)"
      using rankedBefore_ntrans [OF assms(2), of a b c] by (simp add: negative_cmpRows num)
  qed simp
  then have 4: "sorted_wrt (\<lambda>x y. \<not> rankedBefore lc y x) table"
    by (rule sorted_wrt_mono_rel [rotated]) (simp add: negative_cmpRows num set)
  have 5: "(rankedBefore lc x y \<or> rankedBefore lc y x \<or> tied lc x y) \<and>
            \<not> (rankedBefore lc x y \<and> rankedBefore lc y x) \<and>
            (\<forall>z \<in> set table. rankedBefore lc x y \<and> rankedBefore lc y z \<longrightarrow> rankedBefore lc x z)"
    if "x \<in> set table" "y \<in> set table" for x y
  proof -
    have nx: "numeric x" and ny: "numeric y" using that set num by auto
    have "rankedBefore lc x z" if z: "z \<in> set table" and xy: "rankedBefore lc x y" and yz: "rankedBefore lc y z" for z
    proof -
      have nz: "numeric z" using z set num by auto
      have "\<not> rankedBefore lc z y" using rankedBefore_asym [OF assms(2) ny nz yz] .
      then show ?thesis using rankedBefore_ntrans [OF assms(2) nx nz ny xy] by blast
    qed
    then show ?thesis
      using rankedBefore_total [OF assms(2) nx ny] rankedBefore_asym [OF assms(2) nx ny] by blast
  qed
  have 6: "filter (tied lc r) table = filter (tied lc r) rows" for r
    unfolding table_def by (rule filter_sortBy) (rule tied_not_before [OF assms(2)])
  show ?thesis
    using 1 2 3 4 5 6 7 unfolding rows_def by blast
qed

lemma example_eval: "map (\<lambda>r. (r_id r, r_P r, r_W r, r_L r, r_PF r, r_PA r, r_PD r, r_Pts r))
          (projr (computeStandings codeCompare exampleGroup exampleIndex)) =
        [(''C'', 1, 1, 0, Num 21, Num 0, Num 21, 3), (''A'', 1, 1, 0, Num 21, Num 10, Num 11, 3),
         (''B'', 1, 0, 1, Num 10, Num 21, Num (- 11), 0), (''D'', 1, 0, 1, Num 0, Num 21, Num (- 21), 0)]"
  by code_simp

lemma fresh_eval:
  "map (\<lambda>r. (r_id r, r_name r, r_P r, r_W r, r_L r, r_PF r, r_PA r, r_PD r, r_Pts r))
          (projr (computeStandings codeCompare freshGroup reversedIndex)) =
        [(''D'', ''Alfa'', 0, 0, 0, Num 0, Num 0, Num 0, 0),
         (''C'', ''Bravo'', 0, 0, 0, Num 0, Num 0, Num 0, 0),
         (''B'', ''Charlie'', 0, 0, 0, Num 0, Num 0, Num 0, 0),
         (''A'', ''Delta'', 0, 0, 0, Num 0, Num 0, Num 0, 0)]"
  by code_simp

text \<open>
  Two instances: the table of the development test, decided by points and point
  difference, and the table of a group without a saved match, where all statistics are
  zero and the names of the index alone decide, against the order of the group.
\<close>

theorem standings_witness:
  "wellFormed exampleGroup \<and> consistent codeCompare \<and> indexed exampleIndex exampleGroup
   \<and> (\<exists>table. computeStandings codeCompare exampleGroup exampleIndex = Inr table
         \<and> map r_id table = [''C'', ''A'', ''B'', ''D'']
         \<and> map r_Pts table = [3, 3, 0, 0]
         \<and> sorted_wrt (\<lambda>x y. \<not> rankedBefore codeCompare y x) table)
   \<and> wellFormed freshGroup \<and> indexed reversedIndex freshGroup
   \<and> g_players freshGroup = [''A'', ''B'', ''C'', ''D'']
   \<and> (\<exists>table. computeStandings codeCompare freshGroup reversedIndex = Inr table
         \<and> map r_id table = [''D'', ''C'', ''B'', ''A'']
         \<and> map r_name table = [''Alfa'', ''Bravo'', ''Charlie'', ''Delta'']
         \<and> map r_Pts table = [0, 0, 0, 0]
         \<and> map r_PD table = [Num 0, Num 0, Num 0, Num 0]
         \<and> map r_PF table = [Num 0, Num 0, Num 0, Num 0]
         \<and> sorted_wrt (\<lambda>x y. \<not> rankedBefore codeCompare y x) table)"
proof -
  have wf': "wellFormed freshGroup"
    by (simp add: wellFormed_def freshGroup_def scheduleRoundRobin4_def at_def newMatch_def
        Let_def)
  have ix': "indexed reversedIndex freshGroup"
    by (simp add: indexed_def freshGroup_def reversedIndex_def fromEntries_def)
  have pl': "g_players freshGroup = [''A'', ''B'', ''C'', ''D'']"
    by (simp add: freshGroup_def)
  from standings [OF wf' codeCompare_consistent ix']
  obtain table' where t': "computeStandings codeCompare freshGroup reversedIndex = Inr table'"
    and s': "sorted_wrt (\<lambda>x y. \<not> rankedBefore codeCompare y x) table'"
    by blast
  from fresh_eval have
    "map (\<lambda>r. (r_id r, r_name r, r_P r, r_W r, r_L r, r_PF r, r_PA r, r_PD r, r_Pts r)) table' =
        [(''D'', ''Alfa'', 0, 0, 0, Num 0, Num 0, Num 0, 0),
         (''C'', ''Bravo'', 0, 0, 0, Num 0, Num 0, Num 0, 0),
         (''B'', ''Charlie'', 0, 0, 0, Num 0, Num 0, Num 0, 0),
         (''A'', ''Delta'', 0, 0, 0, Num 0, Num 0, Num 0, 0)]"
    by (simp add: t')
  then have m': "map r_id table' = [''D'', ''C'', ''B'', ''A'']"
    "map r_name table' = [''Alfa'', ''Bravo'', ''Charlie'', ''Delta'']"
    "map r_Pts table' = [0, 0, 0, 0]"
    "map r_PD table' = [Num 0, Num 0, Num 0, Num 0]"
    "map r_PF table' = [Num 0, Num 0, Num 0, Num 0]"
    by (auto simp: map_eq_Cons_conv)
  have second: "\<exists>table. computeStandings codeCompare freshGroup reversedIndex = Inr table
         \<and> map r_id table = [''D'', ''C'', ''B'', ''A'']
         \<and> map r_name table = [''Alfa'', ''Bravo'', ''Charlie'', ''Delta'']
         \<and> map r_Pts table = [0, 0, 0, 0]
         \<and> map r_PD table = [Num 0, Num 0, Num 0, Num 0]
         \<and> map r_PF table = [Num 0, Num 0, Num 0, Num 0]
         \<and> sorted_wrt (\<lambda>x y. \<not> rankedBefore codeCompare y x) table"
    using t' s' m' by (intro exI [of _ table'] conjI) simp_all
  have wf: "wellFormed exampleGroup"
    by (simp add: wellFormed_def exampleGroup_def played_def decided_def)
  have ix: "indexed exampleIndex exampleGroup"
    by (simp add: indexed_def exampleGroup_def exampleIndex_def fromEntries_def)
  from standings [OF wf codeCompare_consistent ix]
  obtain table where t: "computeStandings codeCompare exampleGroup exampleIndex = Inr table"
    and s: "sorted_wrt (\<lambda>x y. \<not> rankedBefore codeCompare y x) table"
    by blast
  from example_eval have
    "map (\<lambda>r. (r_id r, r_P r, r_W r, r_L r, r_PF r, r_PA r, r_PD r, r_Pts r)) table =
        [(''C'', 1, 1, 0, Num 21, Num 0, Num 21, 3), (''A'', 1, 1, 0, Num 21, Num 10, Num 11, 3),
         (''B'', 1, 0, 1, Num 10, Num 21, Num (- 11), 0),
         (''D'', 1, 0, 1, Num 0, Num 21, Num (- 21), 0)]"
    by (simp add: t)
  then have m: "map r_id table = [''C'', ''A'', ''B'', ''D'']" "map r_Pts table = [3, 3, 0, 0]"
    by (auto simp: map_eq_Cons_conv)
  have first: "\<exists>table. computeStandings codeCompare exampleGroup exampleIndex = Inr table
         \<and> map r_id table = [''C'', ''A'', ''B'', ''D'']
         \<and> map r_Pts table = [3, 3, 0, 0]
         \<and> sorted_wrt (\<lambda>x y. \<not> rankedBefore codeCompare y x) table"
    using t s m by (intro exI [of _ table] conjI) simp_all
  show ?thesis
    using wf codeCompare_consistent ix first wf' ix' pl' second by simp
qed

section \<open>The first knockout round\<close>

lemma sort_map_key: "sort (map f xs) = map f (sort_key f xs)"
  by (rule properties_for_sort) simp_all

lemma sorted_distinct_later_nonempty:
  fixes order :: "string list"
  assumes "sorted order" "distinct order" "Suc i < length order"
  shows "order ! Suc i \<noteq> []"
proof
  assume e: "order ! Suc i = []"
  have "order ! i \<le> order ! Suc i"
    using assms(1,3) by (simp add: sorted_iff_nth_mono)
  then have "order ! i = []" unfolding e by simp
  with e have "order ! i = order ! Suc i" by simp
  moreover have "i < length order" using assms(3) by simp
  ultimately have "i = Suc i"
    using assms(2,3) nth_eq_iff_index_eq [of order i "Suc i"] by blast
  then show False by simp
qed

lemma standings_ids:
  assumes "wellFormed g"
  shows "\<exists>table. computeStandings lc g idx = Inr table \<and> set (map r_id table) = set (g_players g)"
proof -
  have "set (map r_id (sortBy (cmpRows lc)
            (map (expectedRow (nameOf idx) (g_matches g)) (g_players g))))
      = set (g_players g)"
    by (simp add: set_sortBy image_image)
  then show ?thesis using computeStandings_expected [OF assms, of lc idx] by blast
qed

lemma advancer_truthy:
  assumes "wellFormed g" "[] \<notin> set (g_players g)"
  shows "truthy (standingsWinner lc idx g) = (standingsWinner lc idx g \<noteq> Undefined)"
    and "truthy (runnerUp lc idx g) = (runnerUp lc idx g \<noteq> Undefined)"
proof -
  from standings_ids [OF assms(1), of lc idx] obtain table
    where t: "computeStandings lc g idx = Inr table" and s: "set (map r_id table) = set (g_players g)"
    by blast
  have ne: "r_id (table ! k) \<noteq> []" if "k < length table" for k
  proof -
    have "r_id (table ! k) \<in> set (map r_id table)" using that by simp
    with s assms(2) show ?thesis by metis
  qed
  show "truthy (standingsWinner lc idx g) = (standingsWinner lc idx g \<noteq> Undefined)"
    using ne [of 0] by (simp add: standingsWinner_def t idAt_def)
  show "truthy (runnerUp lc idx g) = (runnerUp lc idx g \<noteq> Undefined)"
    using ne [of 1] by (simp add: runnerUp_def t idAt_def)
qed

lemma advancersLoop_result:
  assumes "\<forall>g \<in> set gs. \<exists>table. computeStandings lc g idx = Inr table"
    and "distinct (map g_name gs)"
  shows "\<exists>adv'. advancersLoop lc idx adv gs = Inr adv' \<and>
           (\<forall>g \<in> set gs. adv' (g_name g) = Some (standingsWinner lc idx g, runnerUp lc idx g)) \<and>
           (\<forall>n. n \<notin> set (map g_name gs) \<longrightarrow> adv' n = adv n)"
  using assms
proof (induction gs arbitrary: adv)
  case Nil
  then show ?case by simp
next
  case (Cons g gs)
  from Cons.prems(1) obtain table where t: "computeStandings lc g idx = Inr table" by auto
  let ?adv = "adv(g_name g \<mapsto> (idAt table 0, idAt table 1))"
  have "\<forall>g \<in> set gs. \<exists>table. computeStandings lc g idx = Inr table" "distinct (map g_name gs)"
    using Cons.prems by simp_all
  from Cons.IH [OF this, of ?adv] obtain adv'
    where 1: "advancersLoop lc idx ?adv gs = Inr adv'"
      and 2: "\<forall>g \<in> set gs. adv' (g_name g) = Some (standingsWinner lc idx g, runnerUp lc idx g)"
      and 3: "\<forall>n. n \<notin> set (map g_name gs) \<longrightarrow> adv' n = ?adv n"
    by blast
  have "adv' (g_name g) = Some (standingsWinner lc idx g, runnerUp lc idx g)"
    using 3 Cons.prems(2) by (simp add: standingsWinner_def runnerUp_def t)
  moreover have "\<forall>n. n \<notin> set (map g_name (g # gs)) \<longrightarrow> adv' n = adv n"
    using 3 by auto
  ultimately show ?case using 1 2 by (simp add: t)
qed

lemma pairingLoop_crossPairs:
  assumes order: "order = map g_name sg"
    and adv: "\<forall>g \<in> set sg. adv (g_name g) = Some (standingsWinner lc idx g, runnerUp lc idx g)"
    and tr: "\<forall>g \<in> set sg. truthy (standingsWinner lc idx g) = (standingsWinner lc idx g \<noteq> Undefined)
                \<and> truthy (runnerUp lc idx g) = (runnerUp lc idx g \<noteq> Undefined)"
    and ne: "\<forall>k. Suc k < length order \<longrightarrow> order ! Suc k \<noteq> []"
  shows "\<exists>res. pairingLoop u order adv i acc = Inr res
          \<and> map (\<lambda>m. (m_a m, m_b m)) res = map (\<lambda>m. (m_a m, m_b m)) acc @ crossPairs lc idx (drop i sg)
          \<and> (\<forall>m \<in> set res. m \<in> set acc \<or> (scoreA m = None \<and> scoreB m = None \<and> \<not> completed m))"
proof (induction "length sg - i" arbitrary: i acc rule: less_induct)
  case less
  have len: "length order = length sg" by (simp add: order)
  consider (out) "length sg \<le> i" | (single) "Suc i = length sg" | (pair) "Suc i < length sg"
    by linarith
  then show ?case
  proof cases
    case out
    then show ?thesis by (subst pairingLoop.simps) (simp add: len)
  next
    case single
    then have "drop i sg = [sg ! i]"
      by (metis Cons_nth_drop_Suc drop_all lessI order_refl)
    with single show ?thesis
      by (subst pairingLoop.simps) (simp add: len at_def Let_def)
  next
    case pair
    define g1 where "g1 = sg ! i"
    define g2 where "g2 = sg ! Suc i"
    have in_sg: "g1 \<in> set sg" "g2 \<in> set sg" using pair by (simp_all add: g1_def g2_def)
    have dr: "drop i sg = g1 # g2 # drop (i + 2) sg"
      using pair by (simp add: g1_def g2_def Cons_nth_drop_Suc Suc_lessD)
    have o1: "order ! i = g_name g1" and o2: "order ! Suc i = g_name g2"
      using pair by (simp_all add: order g1_def g2_def)
    have n2: "g_name g2 \<noteq> []"
      using pair ne o2 len by metis
    have t2: "truthy (at order (Suc i))" and k2: "keyOf (at order (Suc i)) = g_name g2"
      using pair n2 o2 by (simp_all add: at_def len)
    have a1: "adv (order ! i) = Some (standingsWinner lc idx g1, runnerUp lc idx g1)"
      and a2: "adv (g_name g2) = Some (standingsWinner lc idx g2, runnerUp lc idx g2)"
      using adv in_sg by (simp_all add: o1)
    define acc1 where "acc1 = (if truthy (standingsWinner lc idx g1) \<and> truthy (runnerUp lc idx g2)
         then acc @ [newMatch (u (length acc)) (standingsWinner lc idx g1) (runnerUp lc idx g2)] else acc)"
    define acc2 where "acc2 = (if truthy (standingsWinner lc idx g2) \<and> truthy (runnerUp lc idx g1)
         then acc1 @ [newMatch (u (length acc1)) (standingsWinner lc idx g2) (runnerUp lc idx g1)] else acc1)"
    have step: "pairingLoop u order adv i acc = pairingLoop u order adv (i + 2) acc2"
      using pair by (subst pairingLoop.simps) (simp add: len t2 k2 a1 a2 acc1_def acc2_def Let_def)
    have "length sg - (i + 2) < length sg - i" using pair by simp
    from less [OF this, of acc2] obtain res
      where r: "pairingLoop u order adv (i + 2) acc2 = Inr res"
        and p: "map (\<lambda>m. (m_a m, m_b m)) res =
                  map (\<lambda>m. (m_a m, m_b m)) acc2 @ crossPairs lc idx (drop (i + 2) sg)"
        and f: "\<forall>m \<in> set res. m \<in> set acc2 \<or> (scoreA m = None \<and> scoreB m = None \<and> \<not> completed m)"
      by blast
    have p2: "map (\<lambda>m. (m_a m, m_b m)) acc2 =
        map (\<lambda>m. (m_a m, m_b m)) acc @ 
        (if standingsWinner lc idx g1 \<noteq> Undefined \<and> runnerUp lc idx g2 \<noteq> Undefined
         then [(standingsWinner lc idx g1, runnerUp lc idx g2)] else []) @
        (if standingsWinner lc idx g2 \<noteq> Undefined \<and> runnerUp lc idx g1 \<noteq> Undefined
         then [(standingsWinner lc idx g2, runnerUp lc idx g1)] else [])"
      using tr in_sg by (simp add: acc1_def acc2_def newMatch_def)
    have f2: "\<forall>m \<in> set acc2. m \<in> set acc \<or> (scoreA m = None \<and> scoreB m = None \<and> \<not> completed m)"
      by (auto simp: acc1_def acc2_def newMatch_def)
    show ?thesis
      unfolding step using r p f f2 by (auto simp: p2 dr)
  qed
qed

lemma crossPairs_odd:
  "odd (length gs) \<Longrightarrow> crossPairs lc idx gs = crossPairs lc idx (butlast gs)"
  by (induction lc idx gs rule: crossPairs.induct) auto

text \<open>
  C3. For groups as the data model has them, with different names and non-empty player
  ids, the builder returns, without an error, fresh matches whose participants are the
  cross pairs of the groups in lexicographic name order, taken two at a time: for a pair
  \<open>(G1, G2)\<close> first \<open>G1\<close>'s standings winner against \<open>G2\<close>'s runner-up, then \<open>G2\<close>'s winner
  against \<open>G1\<close>'s runner-up, a match with an undefined player being left out. With an odd
  number of groups the last group in name order contributes nothing.
\<close>

theorem knockout_pairing:
  assumes "\<forall>g \<in> set gs. wellFormed g \<and> [] \<notin> set (g_players g)"
    and "distinct (map g_name gs)"
  shows "(\<exists>ms. buildKnockout u lc gs idx = Inr ms
      \<and> map (\<lambda>m. (m_a m, m_b m)) ms = crossPairs lc idx (sort_key g_name gs)
      \<and> (\<forall>m \<in> set ms. scoreA m = None \<and> scoreB m = None \<and> \<not> completed m))
    \<and> sorted (map g_name (sort_key g_name gs))
    \<and> mset (sort_key g_name gs) = mset gs
    \<and> (odd (length gs) \<longrightarrow>
          crossPairs lc idx (sort_key g_name gs) =
            crossPairs lc idx (butlast (sort_key g_name gs)))"
proof -
  define sg where "sg = sort_key g_name gs"
  define order where "order = sort (map g_name gs)"
  have order: "order = map g_name sg" by (simp add: order_def sg_def sort_map_key)
  have ok: "\<forall>g \<in> set gs. \<exists>table. computeStandings lc g idx = Inr table"
    using assms(1) standings_ids by blast
  from advancersLoop_result [OF ok assms(2), of Map.empty] obtain adv
    where a: "advancersLoop lc idx Map.empty gs = Inr adv"
      and l: "\<forall>g \<in> set gs. adv (g_name g) = Some (standingsWinner lc idx g, runnerUp lc idx g)"
    by blast
  have l': "\<forall>g \<in> set sg. adv (g_name g) = Some (standingsWinner lc idx g, runnerUp lc idx g)"
    using l by (simp add: sg_def)
  have tr: "\<forall>g \<in> set sg. truthy (standingsWinner lc idx g) = (standingsWinner lc idx g \<noteq> Undefined)
                \<and> truthy (runnerUp lc idx g) = (runnerUp lc idx g \<noteq> Undefined)"
    using assms(1) advancer_truthy by (simp add: sg_def)
  have "sorted order" "distinct order"
    using assms(2) by (simp_all add: order_def)
  then have ne: "\<forall>k. Suc k < length order \<longrightarrow> order ! Suc k \<noteq> []"
    using sorted_distinct_later_nonempty by blast
  from pairingLoop_crossPairs [OF order l' tr ne, of u 0 "[]"] obtain ms
    where "pairingLoop u order adv 0 [] = Inr ms"
      and "map (\<lambda>m. (m_a m, m_b m)) ms = crossPairs lc idx sg"
      and "\<forall>m \<in> set ms. scoreA m = None \<and> scoreB m = None \<and> \<not> completed m"
    by auto
  then have "\<exists>ms. buildKnockout u lc gs idx = Inr ms
      \<and> map (\<lambda>m. (m_a m, m_b m)) ms = crossPairs lc idx (sort_key g_name gs)
      \<and> (\<forall>m \<in> set ms. scoreA m = None \<and> scoreB m = None \<and> \<not> completed m)"
    by (simp add: buildKnockout_def a order_def [symmetric] sg_def)
  moreover have "odd (length gs) \<longrightarrow>
          crossPairs lc idx (sort_key g_name gs) =
            crossPairs lc idx (butlast (sort_key g_name gs))"
    using crossPairs_odd [of "sort_key g_name gs" lc idx] by simp
  ultimately show ?thesis by simp
qed

lemma crossPairs_example:
  "crossPairs codeCompare testIndex (sort_key g_name [groupB, groupC, groupA]) =
     [(Str ''A3'', Str ''B3''), (Str ''B1'', Str ''A1'')]"
  by code_simp

lemma crossPairs_example_undefined:
  "crossPairs codeCompare testIndex (sort_key g_name [groupD, groupA]) =
     [(Str ''D1'', Str ''A1'')]"
  by code_simp

theorem knockout_pairing_witness:
  "wellFormed groupA \<and> wellFormed groupB \<and> wellFormed groupC \<and> wellFormed groupD
   \<and> distinct (map g_name [groupB, groupC, groupA])
   \<and> odd (length [groupB, groupC, groupA])
   \<and> (\<exists>ms. buildKnockout (idsFrom ''k'') codeCompare [groupB, groupC, groupA] testIndex = Inr ms
         \<and> map (\<lambda>m. (m_a m, m_b m)) ms = [(Str ''A3'', Str ''B3''), (Str ''B1'', Str ''A1'')])
   \<and> runnerUp codeCompare testIndex groupD = Undefined
   \<and> (\<exists>ms. buildKnockout (idsFrom ''k'') codeCompare [groupD, groupA] testIndex = Inr ms
         \<and> map (\<lambda>m. (m_a m, m_b m)) ms = [(Str ''D1'', Str ''A1'')])"
proof -
  have wf: "wellFormed groupA" "wellFormed groupB" "wellFormed groupC" "wellFormed groupD"
    by (simp_all add: wellFormed_def groupA_def groupB_def groupC_def groupD_def played_def
        decided_def scheduleRoundRobin4_def at_def newMatch_def Let_def)
  have h: "\<forall>g \<in> set [groupB, groupC, groupA]. wellFormed g \<and> [] \<notin> set (g_players g)"
    using wf by (simp add: groupA_def groupB_def groupC_def)
  have d: "distinct (map g_name [groupB, groupC, groupA])"
    by (simp add: groupA_def groupB_def groupC_def)
  have h': "\<forall>g \<in> set [groupD, groupA]. wellFormed g \<and> [] \<notin> set (g_players g)"
    using wf by (simp add: groupA_def groupD_def)
  have d': "distinct (map g_name [groupD, groupA])"
    by (simp add: groupA_def groupD_def)
  have r: "runnerUp codeCompare testIndex groupD = Undefined"
    by code_simp
  from knockout_pairing [OF h d, of "idsFrom ''k''" codeCompare testIndex]
  obtain ms where ms: "buildKnockout (idsFrom ''k'') codeCompare [groupB, groupC, groupA] testIndex = Inr ms"
    "map (\<lambda>m. (m_a m, m_b m)) ms =
       crossPairs codeCompare testIndex (sort_key g_name [groupB, groupC, groupA])"
    by blast
  from knockout_pairing [OF h' d', of "idsFrom ''k''" codeCompare testIndex]
  obtain ms' where ms': "buildKnockout (idsFrom ''k'') codeCompare [groupD, groupA] testIndex = Inr ms'"
    "map (\<lambda>m. (m_a m, m_b m)) ms' =
       crossPairs codeCompare testIndex (sort_key g_name [groupD, groupA])"
    by blast
  have 1: "\<exists>ms. buildKnockout (idsFrom ''k'') codeCompare [groupB, groupC, groupA] testIndex = Inr ms
         \<and> map (\<lambda>m. (m_a m, m_b m)) ms = [(Str ''A3'', Str ''B3''), (Str ''B1'', Str ''A1'')]"
    using ms unfolding crossPairs_example by (intro exI [of _ ms]) simp
  have 2: "\<exists>ms. buildKnockout (idsFrom ''k'') codeCompare [groupD, groupA] testIndex = Inr ms
         \<and> map (\<lambda>m. (m_a m, m_b m)) ms = [(Str ''D1'', Str ''A1'')]"
    using ms' unfolding crossPairs_example_undefined by (intro exI [of _ ms']) simp
  show ?thesis
    using wf d r 1 2 by simp
qed

section \<open>Reachable states\<close>

lemma handleSetup_rounds_groups:
  "rounds (handleSetup u rnd names m s) = [] \<or> groups (handleSetup u rnd names m s) = []
   \<or> (rounds (handleSetup u rnd names m s) = rounds s \<and>
       groups (handleSetup u rnd names m s) = groups s)"
  by (cases m) (simp_all add: handleSetup_def Let_def)

lemma updateGroupMatch_allCompleted:
  "allCompleted (groups s) \<Longrightarrow> allCompleted (groups (updateGroupMatch n m s))"
  by (auto simp: allCompleted_def updateGroupMatch_def list_all_iff)

lemma updateGroupMatch_rounds: "rounds (updateGroupMatch n m s) = rounds s"
  by (simp add: updateGroupMatch_def)

lemma advanceToKnockout_groups:
  "advanceToKnockout u lc s = Inr s' \<Longrightarrow> groups s' = groups s"
  by (auto simp: advanceToKnockout_def split: sum.splits if_splits)

lemma submit_effects:
  assumes "submitKnockoutScore u i m s = Inr s'"
  shows "groups s' = groups s"
    and "stage s' = stage s \<or> stage s' = Champion"
    and "length (rounds s') = length (rounds s) \<or> length (rounds s') = Suc (length (rounds s))"
    and "champion s' = champion s \<or> stage s' = Champion"
  using assms
  by (auto simp: submitKnockoutScore_def Let_def withScore_length split: if_splits)

lemma first_round_prerequisite:
  "reachable lc s \<Longrightarrow> rounds s \<noteq> [] \<Longrightarrow> allCompleted (groups s)"
proof (induction rule: reachable.induct)
  case atStart
  then show ?case by (simp add: initialApp_def)
next
  case (afterStep s s')
  from afterStep.hyps(2) show ?case
  proof cases
    case (submitSetup u rnd names m)
    with afterStep.IH afterStep.prems handleSetup_rounds_groups [of u rnd names m s]
    show ?thesis by (auto simp: allCompleted_def)
  next
    case (chooseTarget t)
    with afterStep show ?thesis by simp
  next
    case (groupScore g m sa sb)
    with afterStep show ?thesis
      by (simp add: updateGroupMatch_rounds updateGroupMatch_allCompleted)
  next
    case (advance u)
    then show ?thesis using advanceToKnockout_groups by simp
  next
    case (knockoutScore roundIndex m sa sb u)
    then show ?thesis using afterStep.IH submit_effects(1) by simp
  next
    case showSetup
    with afterStep show ?thesis by simp
  next
    case showGroups
    with afterStep show ?thesis by simp
  next
    case showKnockout
    with afterStep show ?thesis by simp
  next
    case reset
    with afterStep show ?thesis by (simp add: resetAll_def)
  qed
qed

lemma champion_stage_left_by_hand:
  assumes "step lc s s'" and "stage s = Champion"
  shows "(\<exists>st. s' = s\<lparr>stage := st\<rparr>) \<or> s' = resetAll s"
  using assms by cases auto

lemma bracket0_rounds:
  "rounds bracket0 =
     [[newMatch ''pxxxx'' (Str ''px'') (Str ''pxx''), newMatch ''pxxxxx'' (Str ''pxxx'') (Str ''p'')]]
   \<and> stage bracket0 = Knockout \<and> target bracket0 = 21"
  by code_simp

lemma bracket1_rounds:
  "saveScore (idsFrom ''q'') 0 0 21 5 bracket0 = Inr bracket1
   \<and> rounds bracket1 =
     [[(newMatch ''pxxxx'' (Str ''px'') (Str ''pxx''))\<lparr>scoreA := Some 21, scoreB := Some 5, completed := True\<rparr>,
       newMatch ''pxxxxx'' (Str ''pxxx'') (Str ''p'')]]
   \<and> stage bracket1 = Knockout \<and> target bracket1 = 21"
  by code_simp

lemma bracket2_rounds:
  "saveScore (idsFrom ''r'') 0 1 7 21 bracket1 = Inr bracket2
   \<and> rounds bracket2 =
     [[(newMatch ''pxxxx'' (Str ''px'') (Str ''pxx''))\<lparr>scoreA := Some 21, scoreB := Some 5, completed := True\<rparr>,
       (newMatch ''pxxxxx'' (Str ''pxxx'') (Str ''p''))\<lparr>scoreA := Some 7, scoreB := Some 21, completed := True\<rparr>],
      [newMatch ''r'' (Str ''px'') (Str ''p'')]]
   \<and> stage bracket2 = Knockout \<and> target bracket2 = 21"
  by code_simp

lemma bracket3_rounds:
  "saveScore (idsFrom ''t'') 0 0 21 5 bracket2 = Inr bracket3
   \<and> rounds bracket3 =
     [[(newMatch ''pxxxx'' (Str ''px'') (Str ''pxx''))\<lparr>scoreA := Some 21, scoreB := Some 5, completed := True\<rparr>,
       (newMatch ''pxxxxx'' (Str ''pxxx'') (Str ''p''))\<lparr>scoreA := Some 7, scoreB := Some 21, completed := True\<rparr>],
      [newMatch ''r'' (Str ''px'') (Str ''p'')],
      [newMatch ''t'' (Str ''px'') (Str ''p'')]]"
  by code_simp

lemma valid_21_5: "validateCornholeScore (Some 21) (Some 5) 21 = None"
  and valid_7_21: "validateCornholeScore (Some 7) (Some 21) 21 = None"
  by (simp_all add: validateCornholeScore_def)

lemma reachable_bracket0: "reachable lc bracket0"
  unfolding bracket0_def
  by (rule reachable.afterStep [OF reachable.atStart step.submitSetup]) (simp add: initialApp_def)

lemma reachable_bracket1: "reachable lc bracket1"
proof (rule reachable.afterStep [OF reachable_bracket0])
  show "step lc bracket0 bracket1"
  proof (rule step.knockoutScore [where roundIndex = 0 and sa = "Some 21" and sb = "Some 5"
        and u = "idsFrom ''q''" and m = "rounds bracket0 ! 0 ! 0"])
    show "submitKnockoutScore (idsFrom ''q'') 0
       ((rounds bracket0 ! 0 ! 0)\<lparr>scoreA := Some 21, scoreB := Some 5, completed := True\<rparr>) bracket0 = Inr bracket1"
      using bracket1_rounds by (simp add: saveScore_def)
  qed (simp_all add: bracket0_rounds valid_21_5)
qed

lemma reachable_bracket2: "reachable lc bracket2"
proof (rule reachable.afterStep [OF reachable_bracket1])
  show "step lc bracket1 bracket2"
  proof (rule step.knockoutScore [where roundIndex = 0 and sa = "Some 7" and sb = "Some 21"
        and u = "idsFrom ''r''" and m = "rounds bracket1 ! 0 ! 1"])
    show "submitKnockoutScore (idsFrom ''r'') 0
       ((rounds bracket1 ! 0 ! 1)\<lparr>scoreA := Some 7, scoreB := Some 21, completed := True\<rparr>) bracket1 = Inr bracket2"
      using bracket2_rounds by (simp add: saveScore_def)
  qed (simp_all add: bracket1_rounds valid_7_21)
qed

text \<open>
  C7 does not hold of the code. The first knockout round is indeed built only when all
  group matches are completed (\<open>first_round_prerequisite\<close> above). But a score saved again
  on a match of a round that the bracket has advanced past makes \<^verbatim>\<open>submitKnockoutScore\<close>
  append one more round. Four players, both semifinals saved, then the first semifinal
  saved once more: the state \<open>bracket3\<close> is reachable and has three rounds, and the
  third was built while the match of the second, the final, was not completed.
\<close>

theorem rederived_round_reachable:
  "reachable codeCompare bracket3
   \<and> length (rounds bracket3) = 3
   \<and> \<not> list_all completed (rounds bracket3 ! 1)"
proof -
  have "step codeCompare bracket2 bracket3"
  proof (rule step.knockoutScore [where roundIndex = 0 and sa = "Some 21" and sb = "Some 5"
        and u = "idsFrom ''t''" and m = "rounds bracket2 ! 0 ! 0"])
    show "submitKnockoutScore (idsFrom ''t'') 0
       ((rounds bracket2 ! 0 ! 0)\<lparr>scoreA := Some 21, scoreB := Some 5, completed := True\<rparr>) bracket2 = Inr bracket3"
      using bracket3_rounds by (simp add: saveScore_def)
  qed (simp_all add: bracket2_rounds valid_21_5)
  then have "reachable codeCompare bracket3"
    by (rule reachable.afterStep [OF reachable_bracket2])
  then show ?thesis by (simp add: bracket3_rounds newMatch_def)
qed

text \<open>
  C9 does not hold of the code. In \<open>bracket2\<close> the bracket has advanced past round 0: round
  1 pairs its winners. Saving a score on the first match of round 0 again derives the
  same pairing once more and appends it as a further round.
\<close>

theorem resubmission_appends_round:
  "saveScore (idsFrom ''t'') 0 0 21 5 bracket2 = Inr bracket3
   \<and> rounds bracket2 ! 1 = [newMatch ''r'' (Str ''px'') (Str ''p'')]
   \<and> rounds bracket3 = rounds bracket2 @ [[newMatch ''t'' (Str ''px'') (Str ''p'')]]"
  by (simp add: bracket2_rounds bracket3_rounds)

end
